theory Spec2Isabelle
  imports Main
begin

section \<open>Strings and numbers of the source language\<close>

text \<open>
  A JavaScript string is a sequence of code units. The functions below only ever ask
  of a code unit whether it is one of \<open>0\<close>..\<open>9\<close>, a space, a sign or a letter, and
  copy it otherwise, so a code unit is modelled as a \<open>char\<close> and a string as a
  \<open>char list\<close>; code units from 256 on behave like any other character that is
  not a digit. A JavaScript number is modelled as an exact integer or \<open>NaN\<close>; every
  number computed here stays far below \<open>2^53\<close>.
\<close>

datatype number = Num int | NaN

definition isDigit :: "char \<Rightarrow> bool" where
  \<comment> \<open>the regular expression class \<open>\d\<close>, that is \<open>[0-9]\<close>\<close>
  "isDigit c = (48 \<le> (of_char c :: nat) \<and> (of_char c :: nat) \<le> 57)"

definition extractDigits :: "string \<Rightarrow> string" where
  \<comment> \<open>\<open>s.replace(/\D/g, '')\<close> and \<open>s.replace(/[^0-9]/g, '')\<close>\<close>
  "extractDigits s = filter isDigit s"

definition charAt :: "string \<Rightarrow> nat \<Rightarrow> string" where
  \<comment> \<open>\<open>s.charAt(i)\<close>: the empty string out of range\<close>
  "charAt s i = (if i < length s then [s ! i] else [])"

definition strAt :: "string \<Rightarrow> nat \<Rightarrow> string" where
  \<comment> \<open>\<open>s[i]\<close> where it is used as text (appended, tested by a regular expression,
      compared with a string): out of range it is \<open>undefined\<close>, which reads as the
      text \<open>undefined\<close>\<close>
  "strAt s i = (if i < length s then [s ! i] else ''undefined'')"

definition testDigit :: "string \<Rightarrow> bool" where
  \<comment> \<open>\<open>/\d/.test(s)\<close>: some code unit of \<open>s\<close> is a digit\<close>
  "testDigit s = (\<exists>c \<in> set s. isDigit c)"

subsection \<open>parseInt\<close>

definition isWhiteSpace :: "char \<Rightarrow> bool" where
  \<comment> \<open>the white space and line terminators below code unit 256\<close>
  "isWhiteSpace c = ((of_char c :: nat) \<in> {9, 10, 11, 12, 13, 32, 160})"

definition digitValue :: "char \<Rightarrow> nat option" where
  "digitValue c =
     (let k = (of_char c :: nat) in
      if 48 \<le> k \<and> k \<le> 57 then Some (k - 48)
      else if 97 \<le> k \<and> k \<le> 122 then Some (k - 87)
      else if 65 \<le> k \<and> k \<le> 90 then Some (k - 55)
      else None)"

definition radixDigit :: "nat \<Rightarrow> char \<Rightarrow> bool" where
  "radixDigit R c = (case digitValue c of None \<Rightarrow> False | Some v \<Rightarrow> v < R)"

definition radixValue :: "nat \<Rightarrow> string \<Rightarrow> int" where
  "radixValue R z = foldl (\<lambda>a c. a * int R + int (the (digitValue c))) 0 z"

definition parseInt :: "string \<Rightarrow> nat option \<Rightarrow> number" where
  \<comment> \<open>\<open>parseInt(str)\<close> is \<open>parseInt str None\<close>, \<open>parseInt(str, 10)\<close> is
      \<open>parseInt str (Some 10)\<close>: skip leading white space, read a sign, read the
      \<open>0x\<close> prefix when the radix allows it, then the longest run of digits of
      the radix; \<open>NaN\<close> when that run is empty\<close>
  "parseInt str radix =
     (let S = dropWhile isWhiteSpace str;
          negative = (take 1 S = ''-'');
          S1 = (if take 1 S = ''+'' \<or> take 1 S = ''-'' then drop 1 S else S);
          r = (case radix of None \<Rightarrow> 0 | Some r \<Rightarrow> r)
      in if r \<noteq> 0 \<and> (r < 2 \<or> 36 < r) then NaN
         else
           let stripPrefix = (r = 0 \<or> r = 16);
               hex = (stripPrefix \<and> (take 2 S1 = ''0x'' \<or> take 2 S1 = ''0X''));
               S2 = (if hex then drop 2 S1 else S1);
               R = (if hex then 16 else if r = 0 then 10 else r);
               Z = takeWhile (radixDigit R) S2
           in if Z = [] then NaN
              else Num ((if negative then - 1 else 1) * radixValue R Z))"

subsection \<open>Arithmetic and comparison on numbers\<close>

fun num_mul :: "number \<Rightarrow> int \<Rightarrow> number" where
  "num_mul (Num a) k = Num (a * k)"
| "num_mul NaN k = NaN"

fun num_sub :: "number \<Rightarrow> int \<Rightarrow> number" where
  "num_sub (Num a) k = Num (a - k)"
| "num_sub NaN k = NaN"

fun num_add :: "number \<Rightarrow> number \<Rightarrow> number" where
  "num_add (Num a) (Num b) = Num (a + b)"
| "num_add _ _ = NaN"

fun num_gt :: "number \<Rightarrow> int \<Rightarrow> bool" where
  "num_gt (Num a) k = (a > k)"
| "num_gt NaN k = False"

fun num_lt :: "number \<Rightarrow> int \<Rightarrow> bool" where
  "num_lt (Num a) k = (a < k)"
| "num_lt NaN k = False"

fun num_ge :: "number \<Rightarrow> int \<Rightarrow> bool" where
  "num_ge (Num a) k = (a \<ge> k)"
| "num_ge NaN k = False"

fun num_le :: "number \<Rightarrow> int \<Rightarrow> bool" where
  "num_le (Num a) k = (a \<le> k)"
| "num_le NaN k = False"

fun num_rem :: "number \<Rightarrow> int \<Rightarrow> number" where
  \<comment> \<open>\<open>a % k\<close> for a positive \<open>k\<close>: the remainder has the sign of \<open>a\<close>\<close>
  "num_rem (Num a) k = Num (if a < 0 then - ((- a) mod k) else a mod k)"
| "num_rem NaN k = NaN"

section \<open>helpers.js: the Luhn checksum\<close>

function luhn_loop :: "string \<Rightarrow> int \<Rightarrow> int \<Rightarrow> number \<Rightarrow> number" where
  \<comment> \<open>\<open>for (let i = len - 1; i >= 0; i--)\<close>, the index and the running sum
      passed along\<close>
  "luhn_loop code parity i acc =
     (if i \<ge> 0 then
        let d = parseInt (charAt code (nat i)) None;
            d = (if i mod 2 = parity then num_mul d 2 else d);
            d = (if num_gt d 9 then num_sub d 9 else d)
        in luhn_loop code parity (i - 1) (num_add acc d)
      else acc)"
  by pat_completeness auto
termination
  by (relation "measure (\<lambda>(code, parity, i, acc). nat (i + 1))") auto

declare luhn_loop.simps [simp del]

definition luhnChecksum :: "string \<Rightarrow> number" where
  "luhnChecksum code =
     (let len = int (length code);
          parity = len mod 2
      in num_rem (luhn_loop code parity (len - 1) (Num 0)) 10)"

definition luhnValidate :: "string \<Rightarrow> bool" where
  "luhnValidate fullcode0 =
     (let fullcode = extractDigits fullcode0
      in if length fullcode < 2 then False
         else luhnChecksum fullcode = Num 0)"

definition startsWith :: "string \<Rightarrow> string \<Rightarrow> bool" where
  \<comment> \<open>\<open>s.startsWith(p)\<close>, and \<open>/^p/.test(s)\<close> for a literal \<open>p\<close>\<close>
  "startsWith s p = (take (length p) s = p)"

definition isProbablyAmex :: "string \<Rightarrow> bool" where
  "isProbablyAmex digits =
     (length digits \<ge> 2 \<and> (startsWith digits ''34'' \<or> startsWith digits ''37''))"

section \<open>helpers.js: the card type\<close>

definition test_5_1to5 :: "string \<Rightarrow> bool" where
  \<comment> \<open>\<open>/^5[1-5]/.test(s)\<close>\<close>
  "test_5_1to5 s =
     (case s of
        a # b # rest \<Rightarrow> a = CHR ''5'' \<and> 49 \<le> (of_char b :: nat) \<and> (of_char b :: nat) \<le> 53
      | _ \<Rightarrow> False)"

definition getCardType :: "string \<Rightarrow> string" where
  "getCardType digits =
     (if digits = [] then []
      else
        let firstTwo = take 2 digits;
            firstThree = take 3 digits;
            firstFour = take 4 digits
        in if strAt digits 0 = ''4'' then ''Visa''
           else if test_5_1to5 digits then ''Mastercard''
           else if num_ge (parseInt firstFour None) 2221 \<and> num_le (parseInt firstFour None) 2720
             then ''Mastercard''
           else if firstTwo = ''34'' \<or> firstTwo = ''37'' then ''American Express''
           else if firstFour = ''6011'' \<or> startsWith digits ''65'' \<or>
                   (num_ge (parseInt firstThree None) 644 \<and> num_le (parseInt firstThree None) 649)
             then ''Discover''
           else if startsWith digits ''35'' then ''JCB''
           else if firstTwo = ''36'' \<or> firstTwo = ''38'' \<or>
                   (num_ge (parseInt firstThree None) 300 \<and> num_le (parseInt firstThree None) 305)
             then ''Diners Club''
           else if startsWith digits ''62'' then ''UnionPay''
           else ''Unknown'')"

section \<open>format.js: the three formatters\<close>

text \<open>
  The formatters read and write an input element: its text and its selection. The
  element is a record; \<open>selectionStart\<close> is \<open>None\<close> where the browser reports
  \<open>null\<close>. \<open>setSelectionRange\<close> stores the offsets it is given.
\<close>

record input_el =
  val :: string
  selectionStart :: "nat option"
  selectionEnd :: "nat option"

definition setSelectionRange :: "nat \<Rightarrow> nat \<Rightarrow> input_el \<Rightarrow> input_el" where
  "setSelectionRange s e inp = inp\<lparr>selectionStart := Some s, selectionEnd := Some e\<rparr>"

definition cursorOf :: "input_el \<Rightarrow> nat" where
  \<comment> \<open>\<open>input.selectionStart || 0\<close>\<close>
  "cursorOf inp = (case selectionStart inp of None \<Rightarrow> 0 | Some c \<Rightarrow> c)"

definition formatCvv :: "input_el \<Rightarrow> input_el" where
  "formatCvv inp =
     (let oldValue = val inp;
          cursorPos = cursorOf inp;
          digits = extractDigits oldValue;
          newValue = take 4 digits;
          inp1 = inp\<lparr>val := newValue\<rparr>
      in if cursorPos \<le> length newValue
         then setSelectionRange cursorPos cursorPos inp1
         else setSelectionRange (length newValue) (length newValue) inp1)"

function cursor_loop :: "string \<Rightarrow> nat \<Rightarrow> nat \<Rightarrow> nat \<Rightarrow> nat \<times> nat" where
  \<comment> \<open>the \<open>while\<close> loop that both \<open>formatExpiry\<close> and \<open>formatCardNumber\<close> end
      with; it returns \<open>(newCursorPos, digitCount)\<close>\<close>
  "cursor_loop formatted digitsBeforeCursor newCursorPos digitCount =
     (if newCursorPos < length formatted \<and> digitCount < digitsBeforeCursor
      then cursor_loop formatted digitsBeforeCursor (newCursorPos + 1)
             (if testDigit (strAt formatted newCursorPos) then digitCount + 1 else digitCount)
      else (newCursorPos, digitCount))"
  by pat_completeness auto
termination
  by (relation "measure (\<lambda>(formatted, n, pos, cnt). length formatted - pos)") auto

declare cursor_loop.simps [simp del]

definition remapCursor :: "string \<Rightarrow> nat \<Rightarrow> nat" where
  \<comment> \<open>the loop, then \<open>if (digitCount < digitsBeforeCursor) newCursorPos =
      formatted.length\<close>\<close>
  "remapCursor formatted digitsBeforeCursor =
     (case cursor_loop formatted digitsBeforeCursor 0 0 of
        (newCursorPos, digitCount) \<Rightarrow>
          if digitCount < digitsBeforeCursor then length formatted else newCursorPos)"

definition formatExpiry :: "input_el \<Rightarrow> input_el" where
  "formatExpiry inp =
     (let cursorPos = cursorOf inp;
          oldValue = val inp;
          digits = take 4 (extractDigits oldValue);
          digitsBeforeCursor = length (extractDigits (take cursorPos oldValue));
          formatted =
            (if length digits > 0
             then (if length digits \<le> 2 then digits
                   else take 2 digits @ '' / '' @ take 2 (drop 2 digits))
             else []);
          inp1 = inp\<lparr>val := formatted\<rparr>;
          newCursorPos = remapCursor formatted digitsBeforeCursor
      in setSelectionRange newCursorPos newCursorPos inp1)"

function amex_inner :: "string \<Rightarrow> nat \<Rightarrow> nat \<Rightarrow> string \<times> nat \<Rightarrow> string \<times> nat" where
  \<comment> \<open>\<open>for (let j = 0; j < groupSize; j++)\<close> on the pair
      \<open>(formatted, digitIndex)\<close>\<close>
  "amex_inner digits groupSize j (formatted, digitIndex) =
     (if j < groupSize
      then amex_inner digits groupSize (j + 1)
             (if digitIndex < length digits
              then (formatted @ strAt digits digitIndex, digitIndex + 1)
              else (formatted, digitIndex))
      else (formatted, digitIndex))"
  by pat_completeness auto
termination
  by (relation "measure (\<lambda>(digits, groupSize, j, st). groupSize - j)") auto

declare amex_inner.simps [simp del]

function amex_outer :: "string \<Rightarrow> nat list \<Rightarrow> nat \<Rightarrow> string \<times> nat \<Rightarrow> string \<times> nat" where
  \<comment> \<open>\<open>for (let i = 0; i < groups.length; i++)\<close>\<close>
  "amex_outer digits groups i (formatted, digitIndex) =
     (if i < length groups
      then (case amex_inner digits (groups ! i) 0 (formatted, digitIndex) of
              (formatted1, digitIndex1) \<Rightarrow>
                amex_outer digits groups (i + 1)
                  (if digitIndex1 < length digits \<and> i < length groups - 1
                   then (formatted1 @ '' '', digitIndex1)
                   else (formatted1, digitIndex1)))
      else (formatted, digitIndex))"
  by pat_completeness auto
termination
  by (relation "measure (\<lambda>(digits, groups, i, st). length groups - i)") auto

declare amex_outer.simps [simp del]

function plain_loop :: "string \<Rightarrow> nat \<Rightarrow> string \<Rightarrow> string" where
  \<comment> \<open>\<open>for (let i = 0; i < digits.length; i++)\<close> of the branch that is not
      Amex\<close>
  "plain_loop digits i formatted =
     (if i < length digits
      then plain_loop digits (i + 1)
             ((if i > 0 \<and> i mod 4 = 0 then formatted @ '' '' else formatted) @ strAt digits i)
      else formatted)"
  by pat_completeness auto
termination
  by (relation "measure (\<lambda>(digits, i, formatted). length digits - i)") auto

declare plain_loop.simps [simp del]

definition formatCardNumber :: "input_el \<Rightarrow> input_el" where
  "formatCardNumber inp =
     (let oldValue = val inp;
          cursorPos = cursorOf inp;
          digits0 = extractDigits oldValue;
          isAmex = isProbablyAmex digits0;
          maxDigits = (if isAmex then 15 else 16);
          digits = take maxDigits digits0;
          digitsBeforeCursor = length (extractDigits (take cursorPos oldValue));
          formatted =
            (if isAmex then fst (amex_outer digits [4, 6, 5] 0 ([], 0))
             else plain_loop digits 0 []);
          inp1 = inp\<lparr>val := formatted\<rparr>;
          newCursorPos = remapCursor formatted digitsBeforeCursor
      in setSelectionRange newCursorPos newCursorPos inp1)"

section \<open>The event emitter\<close>

text \<open>
  A listener is a function of the arguments it is called with; it returns normally
  (\<open>None\<close>) or throws a value (\<open>Some e\<close>). Listeners observe: they do not reach back
  into the emitter or the object that emits. A statement completes with the state it
  leaves and the exception it throws, if any; \<open>andThen\<close> is sequencing and
  \<open>tryCatch\<close> is \<open>try { ... } catch (e) { ... }\<close>. What the emitter does to the
  world around it is a list of effects, oldest first.
\<close>

type_synonym exn = string

type_synonym 'a listener = "'a \<Rightarrow> exn option"

record 'a EventEmitterLite =
  events :: "string \<Rightarrow> 'a listener list option"
  logErrors :: bool

datatype 'a effect =
    EmitCall string 'a       \<comment> \<open>\<open>emit(event, ...args)\<close> was called\<close>
  | Invoke string nat 'a     \<comment> \<open>listener number \<open>i\<close> of the event ran on the arguments\<close>
  | ConsoleError string exn  \<comment> \<open>\<open>console.error\<close> reported the exception of a listener\<close>

definition andThen :: "'s \<times> exn option \<Rightarrow> ('s \<Rightarrow> 's \<times> exn option) \<Rightarrow> 's \<times> exn option" where
  "andThen r f = (case r of (s, None) \<Rightarrow> f s | (s, Some e) \<Rightarrow> (s, Some e))"

definition tryCatch :: "'s \<times> exn option \<Rightarrow> (exn \<Rightarrow> 's \<Rightarrow> 's \<times> exn option) \<Rightarrow> 's \<times> exn option" where
  "tryCatch r handler = (case r of (s, None) \<Rightarrow> (s, None) | (s, Some e) \<Rightarrow> handler e s)"

definition new_EventEmitterLite :: "'a EventEmitterLite" where
  "new_EventEmitterLite = \<lparr>events = (\<lambda>event. None), logErrors = True\<rparr>"

definition emitter_on :: "string \<Rightarrow> 'a listener \<Rightarrow> 'a EventEmitterLite \<Rightarrow> 'a EventEmitterLite" where
  "emitter_on event listener em =
     em\<lparr>events := (events em)
          (event \<mapsto> (case events em event of None \<Rightarrow> [] | Some ls \<Rightarrow> ls) @ [listener])\<rparr>"

definition apply_listener ::
  "string \<Rightarrow> 'a listener list \<Rightarrow> nat \<Rightarrow> 'a \<Rightarrow> 'a effect list \<Rightarrow> 'a effect list \<times> exn option" where
  \<comment> \<open>\<open>queue[i].apply(this, args)\<close>\<close>
  "apply_listener event queue i args fx = (fx @ [Invoke event i args], (queue ! i) args)"

function emit_loop ::
  "bool \<Rightarrow> string \<Rightarrow> 'a listener list \<Rightarrow> nat \<Rightarrow> nat \<Rightarrow> 'a \<Rightarrow> 'a effect list
     \<Rightarrow> 'a effect list \<times> exn option" where
  \<comment> \<open>\<open>for (let i = 0; i < length; i++) { try { ... } catch (e) { ... } }\<close>\<close>
  "emit_loop logErr event queue len i args fx =
     (if i < len
      then andThen
             (tryCatch (apply_listener event queue i args fx)
                (\<lambda>e fx1. (if logErr then fx1 @ [ConsoleError event e] else fx1, None)))
             (emit_loop logErr event queue len (i + 1) args)
      else (fx, None))"
  by pat_completeness auto
termination
proof (relation "measure (\<lambda>(logErr, event, queue, len, i, args, fx). len - i)")
qed auto

declare emit_loop.simps [simp del]

definition emitter_emit ::
  "'a EventEmitterLite \<Rightarrow> string \<Rightarrow> 'a \<Rightarrow> 'a effect list \<Rightarrow> 'a effect list \<times> exn option" where
  "emitter_emit em event args fx =
     (case events em event of
        None \<Rightarrow> (fx, None)
      | Some listeners \<Rightarrow>
          let queue = listeners; len = length queue
          in emit_loop (logErrors em) event queue len 0 args fx)"

section \<open>The engine: CreditCardInput\<close>

datatype status = neutral | valid | invalid

datatype payload =
    CardStatusEvent status string string string bool bool nat
      \<comment> \<open>status, value, digits, type, isAmex, isValid, maxDigits\<close>
  | ExpiryStatusEvent status string string "number option" "number option"
      \<comment> \<open>status, value, digits, month, year (\<open>None\<close> is \<open>null\<close>)\<close>
  | CvvStatusEvent status string string nat bool
      \<comment> \<open>status, value, digits, expectedLength, isAmex\<close>
  | AllValidEvent bool
      \<comment> \<open>isAllValid\<close>

record snapshot =
  cardStatus :: status
  expiryStatus :: status
  cvvStatus :: status
  cardType :: string
  isAmex :: bool
  allValid :: bool

text \<open>
  A listener of the engine is called with the payload of the event (none for
  \<open>init\<close>) and the engine itself, of which it sees what \<open>getState\<close> returns.
\<close>

type_synonym cc_args = "payload option \<times> snapshot"

record jsdate =
  fullYear :: int    \<comment> \<open>\<open>getFullYear()\<close>\<close>
  monthIndex :: int  \<comment> \<open>\<open>getMonth()\<close>, 0 for January\<close>

record CreditCardInput =
  cardInput :: input_el
  expiryInput :: input_el
  cvvInput :: input_el
  priv_formatCardNumber :: "input_el \<Rightarrow> input_el"
  priv_formatExpiry :: "input_el \<Rightarrow> input_el"
  priv_formatCvv :: "input_el \<Rightarrow> input_el"
  priv_getCardType :: "string \<Rightarrow> string"
  eventEmitter :: "cc_args EventEmitterLite"
  priv_cardStatus :: status
  priv_expiryStatus :: status
  priv_cvvStatus :: status
  priv_cardType :: string
  priv_isAmex :: bool
  priv_allValid :: bool
  effects :: "cc_args effect list"

definition new_CreditCardInput :: "input_el \<Rightarrow> input_el \<Rightarrow> input_el \<Rightarrow> CreditCardInput" where
  \<comment> \<open>the constructor with the default formatters and card type detector\<close>
  "new_CreditCardInput cardEl expiryEl cvvEl =
     \<lparr>cardInput = cardEl, expiryInput = expiryEl, cvvInput = cvvEl,
      priv_formatCardNumber = formatCardNumber, priv_formatExpiry = formatExpiry,
      priv_formatCvv = formatCvv, priv_getCardType = getCardType,
      eventEmitter = new_EventEmitterLite,
      priv_cardStatus = neutral, priv_expiryStatus = neutral, priv_cvvStatus = neutral,
      priv_cardType = [], priv_isAmex = False, priv_allValid = False,
      effects = []\<rparr>"

definition getState :: "CreditCardInput \<Rightarrow> snapshot" where
  "getState e =
     \<lparr>cardStatus = priv_cardStatus e, expiryStatus = priv_expiryStatus e,
      cvvStatus = priv_cvvStatus e, cardType = priv_cardType e,
      isAmex = priv_isAmex e, allValid = priv_allValid e\<rparr>"

definition cc_on :: "string \<Rightarrow> cc_args listener \<Rightarrow> CreditCardInput \<Rightarrow> CreditCardInput" where
  \<comment> \<open>\<open>on\<close>, and \<open>onCardStatus\<close>, \<open>onExpiryStatus\<close>, \<open>onCvvStatus\<close>, \<open>onAllValid\<close>
      with their event names\<close>
  "cc_on eventName callback e = e\<lparr>eventEmitter := emitter_on eventName callback (eventEmitter e)\<rparr>"

definition cc_emit :: "string \<Rightarrow> payload option \<Rightarrow> CreditCardInput \<Rightarrow> CreditCardInput \<times> exn option" where
  \<comment> \<open>\<open>emit(event, ...args) { this.eventEmitter.emit(event, ...args, this) }\<close>\<close>
  "cc_emit event arg e =
     (let args = (arg, getState e)
      in case emitter_emit (eventEmitter e) event args (effects e @ [EmitCall event args]) of
           (fx, ex) \<Rightarrow> (e\<lparr>effects := fx\<rparr>, ex))"

definition checkAllValid :: "CreditCardInput \<Rightarrow> CreditCardInput \<times> exn option" where
  "checkAllValid e =
     (let allValidNow =
            (priv_cardStatus e = valid \<and> priv_expiryStatus e = valid \<and> priv_cvvStatus e = valid)
      in if priv_allValid e \<noteq> allValidNow
         then cc_emit ''allValid'' (Some (AllValidEvent allValidNow)) (e\<lparr>priv_allValid := allValidNow\<rparr>)
         else (e, None))"

definition updateCardStatus :: "CreditCardInput \<Rightarrow> CreditCardInput \<times> exn option" where
  "updateCardStatus e =
     (let fieldValue = val (cardInput e);
          digits = extractDigits fieldValue;
          amex = isProbablyAmex digits;
          maxDigits = (if amex then 15 else 16);
          ctype = priv_getCardType e digits;
          e1 = e\<lparr>priv_cardType := ctype, priv_isAmex := amex\<rparr>;
          isValid = (if length digits \<ge> maxDigits then luhnValidate digits else False);
          st = (if length digits \<ge> maxDigits then (if isValid then valid else invalid)
                else neutral);
          e2 = e1\<lparr>priv_cardStatus := st\<rparr>
      in andThen
           (cc_emit ''cardStatusChange''
              (Some (CardStatusEvent st fieldValue digits ctype amex isValid maxDigits)) e2)
           checkAllValid)"

definition expiryEval :: "jsdate \<Rightarrow> string \<Rightarrow> status \<times> number option \<times> number option" where
  \<comment> \<open>the body of \<open>_updateExpiryStatus\<close> between reading the digits and storing the
      status: \<open>(status, month, year)\<close>; \<open>now\<close> is what \<open>new Date()\<close> returns\<close>
  "expiryEval now digits =
     (if length digits = 4
      then
        let month = parseInt (take 2 digits) (Some 10);
            year = num_add (parseInt (take 2 (drop 2 digits)) (Some 10)) (Num 2000)
        in if num_lt month 1 \<or> num_gt month 12 then (invalid, Some month, Some year)
           else
             let currentYear = fullYear now;
                 currentMonth = monthIndex now + 1;
                 currentTotal = currentYear * 12 + currentMonth;
                 inputTotal = num_add (num_mul year 12) month;
                 maxTotal = (currentYear + 10) * 12 + currentMonth
             in if num_lt inputTotal currentTotal \<or> num_gt inputTotal maxTotal
                then (invalid, Some month, Some year)
                else (valid, Some month, Some year)
      else (neutral, None, None))"

definition updateExpiryStatus :: "jsdate \<Rightarrow> CreditCardInput \<Rightarrow> CreditCardInput \<times> exn option" where
  "updateExpiryStatus now e =
     (let fieldValue = val (expiryInput e);
          digits = extractDigits fieldValue
      in case expiryEval now digits of
           (st, month, year) \<Rightarrow>
             andThen
               (cc_emit ''expiryStatusChange''
                  (Some (ExpiryStatusEvent st fieldValue digits month year))
                  (e\<lparr>priv_expiryStatus := st\<rparr>))
               checkAllValid)"

definition updateCvvStatus :: "CreditCardInput \<Rightarrow> CreditCardInput \<times> exn option" where
  "updateCvvStatus e =
     (let fieldValue = val (cvvInput e);
          digits = extractDigits fieldValue;
          amex = priv_isAmex e;
          expectedLength = (if amex then 4 else 3);
          st = (if length digits > 0
                then (if length digits = expectedLength then valid else invalid)
                else neutral)
      in andThen
           (cc_emit ''cvvStatusChange''
              (Some (CvvStatusEvent st fieldValue digits expectedLength amex))
              (e\<lparr>priv_cvvStatus := st\<rparr>))
           checkAllValid)"

definition init :: "jsdate \<Rightarrow> CreditCardInput \<Rightarrow> CreditCardInput \<times> exn option" where
  \<comment> \<open>the initial update of \<open>init()\<close>; the three handlers it registers are
      \<open>cardInputHandler\<close>, \<open>expiryInputHandler\<close> and \<open>cvvInputHandler\<close> below\<close>
  "init now e =
     andThen (andThen (andThen (updateCardStatus e) (updateExpiryStatus now)) updateCvvStatus)
       (cc_emit ''init'' None)"

definition cardInputHandler :: "CreditCardInput \<Rightarrow> CreditCardInput \<times> exn option" where
  "cardInputHandler e =
     andThen (updateCardStatus (e\<lparr>cardInput := priv_formatCardNumber e (cardInput e)\<rparr>))
       updateCvvStatus"

definition expiryInputHandler :: "jsdate \<Rightarrow> CreditCardInput \<Rightarrow> CreditCardInput \<times> exn option" where
  "expiryInputHandler now e =
     updateExpiryStatus now (e\<lparr>expiryInput := priv_formatExpiry e (expiryInput e)\<rparr>)"

definition cvvInputHandler :: "CreditCardInput \<Rightarrow> CreditCardInput \<times> exn option" where
  "cvvInputHandler e = updateCvvStatus (e\<lparr>cvvInput := priv_formatCvv e (cvvInput e)\<rparr>)"

section \<open>The helpers as the specification words them\<close>

definition decimalDigit :: "char \<Rightarrow> int" where
  "decimalDigit c = int (of_char c) - 48"

definition luhn_term :: "string \<Rightarrow> nat \<Rightarrow> int" where
  \<comment> \<open>the contribution \<open>t(i)\<close> of position \<open>i\<close>\<close>
  "luhn_term code i =
     (let d = decimalDigit (code ! i) in
      if int i mod 2 = int (length code) mod 2
      then (if 2 * d > 9 then 2 * d - 9 else 2 * d)
      else d)"

definition luhn_spec :: "string \<Rightarrow> int" where
  "luhn_spec code = (\<Sum>i < length code. luhn_term code i) mod 10"

definition isDigitString :: "string \<Rightarrow> bool" where
  \<comment> \<open>the DigitString of the data model: only the characters \<open>0\<close>..\<open>9\<close>\<close>
  "isDigitString s = list_all isDigit s"

definition decimalValue :: "string \<Rightarrow> int" where
  \<comment> \<open>a run of digits read as a whole number\<close>
  "decimalValue s = foldl (\<lambda>a c. a * 10 + decimalDigit c) 0 s"

definition prefixIn :: "nat \<Rightarrow> string \<Rightarrow> int \<Rightarrow> int \<Rightarrow> bool" where
  \<comment> \<open>the first \<open>k\<close> digits, as a number, lie in \<open>[lo, hi]\<close>; a string with fewer
      than \<open>k\<close> digits does not satisfy the rule\<close>
  "prefixIn k d lo hi =
     (k \<le> length d \<and> lo \<le> decimalValue (take k d) \<and> decimalValue (take k d) \<le> hi)"

definition prefixIs :: "string \<Rightarrow> string \<Rightarrow> bool" where
  \<comment> \<open>the first digits are exactly \<open>p\<close>\<close>
  "prefixIs d p = (length p \<le> length d \<and> take (length p) d = p)"

definition classify_spec :: "string \<Rightarrow> string" where
  "classify_spec d =
     (if d = [] then []
      else if prefixIs d ''4'' then ''Visa''
      else if prefixIn 2 d 51 55 \<or> prefixIn 4 d 2221 2720 then ''Mastercard''
      else if prefixIs d ''34'' \<or> prefixIs d ''37'' then ''American Express''
      else if prefixIs d ''6011'' \<or> prefixIs d ''65'' \<or> prefixIn 3 d 644 649 then ''Discover''
      else if prefixIs d ''35'' then ''JCB''
      else if prefixIs d ''36'' \<or> prefixIs d ''38'' \<or> prefixIn 3 d 300 305 then ''Diners Club''
      else if prefixIs d ''62'' then ''UnionPay''
      else ''Unknown'')"

section \<open>Reading the effects of the engine\<close>

definition listener_effects :: "bool \<Rightarrow> string \<Rightarrow> 'a listener list \<Rightarrow> 'a \<Rightarrow> nat \<Rightarrow> 'a effect list" where
  \<comment> \<open>what one round of the loop of \<open>emit\<close> leaves behind for listener \<open>i\<close>:
      the call, and the console line when the listener threw and errors are logged\<close>
  "listener_effects logErr event queue args i =
     Invoke event i args #
       (case (queue ! i) args of
          None \<Rightarrow> []
        | Some ex \<Rightarrow> if logErr then [ConsoleError event ex] else [])"

definition dispatch_effects :: "'a EventEmitterLite \<Rightarrow> string \<Rightarrow> 'a \<Rightarrow> 'a effect list" where
  "dispatch_effects em event args =
     (case events em event of
        None \<Rightarrow> []
      | Some ls \<Rightarrow> concat (map (listener_effects (logErrors em) event ls args) [0..<length ls]))"

fun invocation :: "'a effect \<Rightarrow> (string \<times> nat \<times> 'a) list" where
  "invocation (Invoke event i args) = [(event, i, args)]"
| "invocation _ = []"

definition invocations :: "'a effect list \<Rightarrow> (string \<times> nat \<times> 'a) list" where
  \<comment> \<open>the listener calls among some effects, in order\<close>
  "invocations fx = concat (map invocation fx)"

fun notification :: "cc_args effect \<Rightarrow> (string \<times> payload option) list" where
  "notification (EmitCall event args) = [(event, fst args)]"
| "notification _ = []"

definition emitted :: "CreditCardInput \<Rightarrow> CreditCardInput \<Rightarrow> (string \<times> payload option) list" where
  \<comment> \<open>the notifications emitted on the way from engine state \<open>e\<close> to \<open>e'\<close>:
      event name and payload, in order\<close>
  "emitted e e' = concat (map notification (drop (length (effects e)) (effects e')))"

definition fieldEvents :: "string list" where
  "fieldEvents = [''cardStatusChange'', ''expiryStatusChange'', ''cvvStatusChange'']"

definition allValidNow :: "CreditCardInput \<Rightarrow> bool" where
  \<comment> \<open>the conjunction that \<open>_checkAllValid\<close> computes\<close>
  "allValidNow e =
     (priv_cardStatus e = valid \<and> priv_expiryStatus e = valid \<and> priv_cvvStatus e = valid)"

definition cardStored :: "CreditCardInput \<Rightarrow> CreditCardInput" where
  \<comment> \<open>the engine after the assignments of \<open>_updateCardStatus\<close>, before it emits\<close>
  "cardStored e =
     (let digits = extractDigits (val (cardInput e));
          amex = isProbablyAmex digits;
          maxDigits = (if amex then 15 else 16)
      in e\<lparr>priv_cardType := priv_getCardType e digits, priv_isAmex := amex,
           priv_cardStatus :=
             (if length digits \<ge> maxDigits
              then (if luhnValidate digits then valid else invalid) else neutral)\<rparr>)"

definition cardPayload :: "CreditCardInput \<Rightarrow> payload" where
  "cardPayload e =
     (let fieldValue = val (cardInput e);
          digits = extractDigits fieldValue;
          amex = isProbablyAmex digits;
          maxDigits = (if amex then 15 else 16);
          isValid = (if length digits \<ge> maxDigits then luhnValidate digits else False)
      in CardStatusEvent (priv_cardStatus (cardStored e)) fieldValue digits
           (priv_getCardType e digits) amex isValid maxDigits)"

definition expiryStored :: "jsdate \<Rightarrow> CreditCardInput \<Rightarrow> CreditCardInput" where
  \<comment> \<open>the engine after the assignment of \<open>_updateExpiryStatus\<close>, before it emits\<close>
  "expiryStored now e =
     e\<lparr>priv_expiryStatus := fst (expiryEval now (extractDigits (val (expiryInput e))))\<rparr>"

definition expiryPayload :: "jsdate \<Rightarrow> CreditCardInput \<Rightarrow> payload" where
  "expiryPayload now e =
     (let fieldValue = val (expiryInput e);
          digits = extractDigits fieldValue;
          r = expiryEval now digits
      in ExpiryStatusEvent (fst r) fieldValue digits (fst (snd r)) (snd (snd r)))"

definition cvvStored :: "CreditCardInput \<Rightarrow> CreditCardInput" where
  \<comment> \<open>the engine after the assignment of \<open>_updateCvvStatus\<close>, before it emits\<close>
  "cvvStored e =
     (let digits = extractDigits (val (cvvInput e));
          expectedLength = (if priv_isAmex e then 4 else 3)
      in e\<lparr>priv_cvvStatus :=
             (if length digits > 0
              then (if length digits = expectedLength then valid else invalid)
              else neutral)\<rparr>)"

definition cvvPayload :: "CreditCardInput \<Rightarrow> payload" where
  "cvvPayload e =
     (let fieldValue = val (cvvInput e);
          digits = extractDigits fieldValue;
          amex = priv_isAmex e
      in CvvStatusEvent (priv_cvvStatus (cvvStored e)) fieldValue digits
           (if amex then 4 else 3) amex)"

definition expiry_spec :: "int \<Rightarrow> int \<Rightarrow> string \<Rightarrow> status \<times> int option \<times> int option" where
  \<comment> \<open>status, month and year of the expiry field as the specification words them,
      from the current year, the current month (1 to 12) and the digits\<close>
  "expiry_spec currentYear currentMonth digits =
     (if length digits \<noteq> 4 then (neutral, None, None)
      else
        let month = decimalValue (take 2 digits);
            year = 2000 + decimalValue (drop 2 digits);
            currentTotal = currentYear * 12 + currentMonth
        in ((if month < 1 \<or> 12 < month then invalid
             else if currentTotal \<le> year * 12 + month \<and> year * 12 + month \<le> currentTotal + 120
               then valid
             else invalid),
            Some month, Some year))"

section \<open>The formatters as the specification words them\<close>

definition space :: char where
  "space = CHR '' ''"

definition amex_groups_spec :: "string \<Rightarrow> string" where
  \<comment> \<open>groups of 4, 6 and 5 digits; a space follows a group only when more digits
      remain to start the next one\<close>
  "amex_groups_spec d =
     take 4 d @ (if 4 < length d then [space] else []) @
     take 6 (drop 4 d) @ (if 10 < length d then [space] else []) @
     take 5 (drop 10 d)"

definition plain_groups_spec :: "string \<Rightarrow> string" where
  \<comment> \<open>the digits, with a space before the digits at positions 4, 8, 12, ...\<close>
  "plain_groups_spec d =
     concat (map (\<lambda>i. (if 0 < i \<and> i mod 4 = 0 then [space] else []) @ [d ! i]) [0..<length d])"

definition amexPrefix :: "string \<Rightarrow> bool" where
  \<comment> \<open>at least two digits, the first two being 34 or 37\<close>
  "amexPrefix digits = (2 \<le> length digits \<and> (take 2 digits = ''34'' \<or> take 2 digits = ''37''))"

definition truncatedDigits :: "string \<Rightarrow> string" where
  \<comment> \<open>the digits of the raw input, cut to 15 for Amex and to 16 otherwise\<close>
  "truncatedDigits raw =
     take (if amexPrefix (extractDigits raw) then 15 else 16) (extractDigits raw)"

definition card_format_spec :: "string \<Rightarrow> string" where
  "card_format_spec raw =
     (if amexPrefix (extractDigits raw) then amex_groups_spec (truncatedDigits raw)
      else plain_groups_spec (truncatedDigits raw))"

definition expiry_format_spec :: "string \<Rightarrow> string" where
  \<comment> \<open>no digit: empty; one or two digits: the digits; three or four: the first two,
      the separator, the rest\<close>
  "expiry_format_spec raw =
     (let d = take 4 (extractDigits raw)
      in if d = [] then []
         else if length d \<le> 2 then d
         else take 2 d @ '' / '' @ drop 2 d)"

fun noAdjacentSep :: "string \<Rightarrow> bool" where
  \<comment> \<open>of two neighbours, one at least is a digit\<close>
  "noAdjacentSep (a # b # cs) = ((isDigit a \<or> isDigit b) \<and> noAdjacentSep (b # cs))"
| "noAdjacentSep cs = True"

definition wellSeparated :: "string \<Rightarrow> bool" where
  \<comment> \<open>no separator at the start, at the end, or next to another separator; the only
      separator is the space\<close>
  "wellSeparated out =
     ((out = [] \<or> (isDigit (hd out) \<and> isDigit (last out))) \<and> noAdjacentSep out \<and>
      list_all (\<lambda>c. isDigit c \<or> c = space) out)"

definition digitCount :: "string \<Rightarrow> nat" where
  \<comment> \<open>the number of digits in a text\<close>
  "digitCount s = length (extractDigits s)"

definition cursor_spec :: "string \<Rightarrow> nat \<Rightarrow> nat \<Rightarrow> bool" where
  \<comment> \<open>\<open>p\<close> is where the cursor belongs in the formatted text \<open>fv\<close> when \<open>n\<close>
      digits stood before it: the smallest offset with \<open>n\<close> digits before it, or the
      end of the text when it has fewer than \<open>n\<close> digits\<close>
  "cursor_spec fv n p =
     (p \<le> length fv \<and>
      (if n \<le> digitCount fv
       then digitCount (take p fv) = n \<and> list_all (\<lambda>q. digitCount (take q fv) \<noteq> n) [0..<p]
       else p = length fv))"

section \<open>A concrete engine\<close>

text \<open>
  An engine over three filled fields, with two listeners on \<open>cardStatusChange\<close>
  (the first one throws) and one on \<open>allValid\<close>, and a date in June 2024.
\<close>

definition field :: "string \<Rightarrow> input_el" where
  "field s = \<lparr>val = s, selectionStart = Some (length s), selectionEnd = Some (length s)\<rparr>"

definition june2024 :: jsdate where
  "june2024 = \<lparr>fullYear = 2024, monthIndex = 5\<rparr>"

definition throwing :: "cc_args listener" where
  "throwing args = Some ''boom''"

definition quiet :: "cc_args listener" where
  "quiet args = None"

definition demo :: CreditCardInput where
  "demo =
     cc_on ''allValid'' quiet
       (cc_on ''cardStatusChange'' quiet
          (cc_on ''cardStatusChange'' throwing
             (new_CreditCardInput (field ''4111 1111 1111 1111'') (field ''06 / 24'')
                (field ''123''))))"

definition demo2 :: CreditCardInput where
  \<comment> \<open>the engine once the card and the expiry have been evaluated\<close>
  "demo2 = fst (updateExpiryStatus june2024 (fst (updateCardStatus demo)))"

section \<open>The Luhn checksum\<close>

lemma parseInt_digit: "isDigit c \<Longrightarrow> parseInt [c] None = Num (decimalDigit c)"
  by (auto simp add: parseInt_def Let_def isWhiteSpace_def isDigit_def radixDigit_def
      digitValue_def radixValue_def decimalDigit_def)

lemma decimalDigit_range: "isDigit c \<Longrightarrow> 0 \<le> decimalDigit c \<and> decimalDigit c \<le> 9"
  by (auto simp add: isDigit_def decimalDigit_def)

lemma isDigit_extractDigits: "\<forall>c \<in> set (extractDigits raw). isDigit c"
  by (simp add: extractDigits_def)

lemma luhn_step:
  assumes "n < length code" and "isDigit (code ! n)"
  shows "luhn_loop code (int (length code) mod 2) (int n) (Num s) =
         luhn_loop code (int (length code) mod 2) (int n - 1) (Num (s + luhn_term code n))"
proof -
  have r: "0 \<le> decimalDigit (code ! n) \<and> decimalDigit (code ! n) \<le> 9"
    using assms(2) by (rule decimalDigit_range)
  show ?thesis
    using assms r
    by (subst luhn_loop.simps)
      (simp add: charAt_def parseInt_digit luhn_term_def Let_def mult.commute)
qed

lemma luhn_loop_sum:
  assumes "\<forall>c \<in> set code. isDigit c"
  shows "n \<le> length code \<Longrightarrow>
         luhn_loop code (int (length code) mod 2) (int n - 1) (Num s) =
         Num (s + (\<Sum>i < n. luhn_term code i))"
proof (induction n arbitrary: s)
  case 0
  then show ?case by (subst luhn_loop.simps) simp
next
  case (Suc n)
  have d: "isDigit (code ! n)" using Suc.prems assms by simp
  have "luhn_loop code (int (length code) mod 2) (int (Suc n) - 1) (Num s) =
        luhn_loop code (int (length code) mod 2) (int n - 1) (Num (s + luhn_term code n))"
    using luhn_step [of n code s] Suc.prems d by simp
  also have "\<dots> = Num (s + luhn_term code n + (\<Sum>i < n. luhn_term code i))"
    using Suc.IH [of "s + luhn_term code n"] Suc.prems by simp
  finally show ?case by simp
qed

lemma luhn_term_nonneg:
  "\<forall>c \<in> set code. isDigit c \<Longrightarrow> i < length code \<Longrightarrow> 0 \<le> luhn_term code i"
  using decimalDigit_range [of "code ! i"] by (auto simp add: luhn_term_def Let_def)

lemma luhnChecksum_digits:
  assumes "\<forall>c \<in> set code. isDigit c"
  shows "luhnChecksum code = Num (luhn_spec code)"
proof -
  have "0 \<le> (\<Sum>i < length code. luhn_term code i)"
    by (rule sum_nonneg) (simp add: luhn_term_nonneg assms)
  then show ?thesis
    using luhn_loop_sum [OF assms, of "length code" 0]
    by (simp add: luhnChecksum_def luhn_spec_def Let_def)
qed

lemma luhnValidate_digits:
  "luhnValidate raw = (2 \<le> length (extractDigits raw) \<and> luhn_spec (extractDigits raw) = 0)"
  using isDigit_extractDigits [of raw]
  by (auto simp add: luhnValidate_def Let_def luhnChecksum_digits)

text \<open>
  Claim C5. On a string of digits the checksum is the sum of the contributions
  \<open>t(i)\<close> of the positions, modulo 10, where a position of the parity of the length
  contributes its digit doubled (less 9 when the double exceeds 9) and any other
  position its digit; the checksum lies in 0..9. \<open>luhnValidate\<close> strips the
  characters that are not digits, answers false when fewer than two digits remain,
  and otherwise answers whether the checksum of the remaining digits is 0. It accepts
  4111111111111111 and rejects 4111111111111112 and 0.
\<close>

theorem luhn_checksum_formula:
  assumes "isDigitString code"
  shows "luhnChecksum code = Num (luhn_spec code)
       \<and> 0 \<le> luhn_spec code \<and> luhn_spec code \<le> 9
       \<and> luhnValidate raw =
           (if length (extractDigits raw) < 2 then False
            else luhnChecksum (extractDigits raw) = Num 0)
       \<and> luhnValidate raw =
           (2 \<le> length (extractDigits raw) \<and> luhn_spec (extractDigits raw) = 0)
       \<and> luhnValidate ''4111111111111111''
       \<and> \<not> luhnValidate ''4111111111111112''
       \<and> \<not> luhnValidate ''0''"
proof -
  have a: "luhnChecksum code = Num (luhn_spec code)"
    using assms by (simp add: luhnChecksum_digits isDigitString_def list_all_iff)
  have b: "0 \<le> luhn_spec code \<and> luhn_spec code \<le> 9"
    by (simp add: luhn_spec_def)
  have c: "luhnValidate raw =
           (if length (extractDigits raw) < 2 then False
            else luhnChecksum (extractDigits raw) = Num 0)"
    by (simp add: luhnValidate_def Let_def)
  have d: "luhnValidate raw =
           (2 \<le> length (extractDigits raw) \<and> luhn_spec (extractDigits raw) = 0)"
    by (rule luhnValidate_digits)
  have e1: "luhnValidate ''4111111111111111''" by code_simp
  have e2: "\<not> luhnValidate ''4111111111111112''" by code_simp
  have e3: "\<not> luhnValidate ''0''" by code_simp
  from a b c d e1 e2 e3 show ?thesis by blast
qed

theorem luhn_checksum_formula_witness:
  "isDigitString ''79927398713''
   \<and> luhnChecksum ''79927398713'' = Num (luhn_spec ''79927398713'')
   \<and> luhn_spec ''79927398713'' = 0
   \<and> luhnValidate ''7992-7398-713''"
proof -
  have h: "isDigitString ''79927398713''" by (simp add: isDigitString_def isDigit_def)
  have v: "luhn_spec ''79927398713'' = 0" by code_simp
  have x: "extractDigits ''7992-7398-713'' = ''79927398713''"
    by (simp add: extractDigits_def isDigit_def)
  show ?thesis
    using h v x luhn_checksum_formula [OF h, of "''7992-7398-713''"] by simp
qed

text \<open>
  Claim C6. The doc comment of \<open>luhnChecksum\<close> gives 0 as the checksum of
  4111111111111110, and so does the claim. The loop returns 9 on that string, not 0:
  the contributions of its positions sum to 29, in the loop and in the formula of
  claim C5 alike. It is 4111111111111111 whose checksum is 0.
\<close>

theorem luhnChecksum_4111111111111110:
  "luhnChecksum ''4111111111111110'' = Num 9
   \<and> luhnChecksum ''4111111111111110'' \<noteq> Num 0
   \<and> (\<Sum>i < length ''4111111111111110''. luhn_term ''4111111111111110'' i) = 29
   \<and> luhn_spec ''4111111111111110'' = 9
   \<and> luhnChecksum ''4111111111111111'' = Num 0"
proof -
  have a: "luhnChecksum ''4111111111111110'' = Num 9" by code_simp
  have b: "(\<Sum>i < length ''4111111111111110''. luhn_term ''4111111111111110'' i) = 29"
    by code_simp
  have c: "luhn_spec ''4111111111111110'' = 9" by code_simp
  have d: "luhnChecksum ''4111111111111111'' = Num 0" by code_simp
  from a b c d show ?thesis by simp
qed

section \<open>The card type\<close>

lemma prefixIs_take: "prefixIs d p = (take (length p) d = p)"
proof -
  have "take (length p) d = p \<Longrightarrow> length p \<le> length d"
    by (metis length_take min.cobounded1)
  then show ?thesis by (auto simp add: prefixIs_def)
qed

lemma startsWith_prefixIs: "startsWith d p = prefixIs d p"
  by (simp add: prefixIs_take startsWith_def)

lemma strAt_0_prefixIs: "d \<noteq> [] \<Longrightarrow> (strAt d 0 = [c]) = prefixIs d [c]"
  by (cases d) (simp_all add: strAt_def prefixIs_take)

lemma digit_not_space: "isDigit c \<Longrightarrow> \<not> isWhiteSpace c"
  by (auto simp add: isDigit_def isWhiteSpace_def)

lemma digit_radix10: "isDigit c \<Longrightarrow> radixDigit 10 c"
  by (auto simp add: isDigit_def radixDigit_def digitValue_def Let_def)

lemma digit_value: "isDigit c \<Longrightarrow> int (the (digitValue c)) = decimalDigit c"
  by (auto simp add: isDigit_def digitValue_def decimalDigit_def Let_def)

lemma radixValue_digits_aux:
  "list_all isDigit s \<Longrightarrow>
   foldl (\<lambda>a c. a * int 10 + int (the (digitValue c))) a0 s =
   foldl (\<lambda>a c. a * 10 + decimalDigit c) a0 s"
  by (induction s arbitrary: a0) (simp_all add: digit_value)

lemma radixValue_digits: "list_all isDigit s \<Longrightarrow> radixValue 10 s = decimalValue s"
  using radixValue_digits_aux [of s 0] by (simp add: radixValue_def decimalValue_def)

lemma isDigit_chars:
  "isDigit c \<Longrightarrow> c \<noteq> CHR ''+'' \<and> c \<noteq> CHR ''-'' \<and> c \<noteq> CHR ''x'' \<and> c \<noteq> CHR ''X''"
  by (auto simp add: isDigit_def)

lemma parseInt_digits:
  assumes "list_all isDigit s" and "s \<noteq> []"
  shows "parseInt s None = Num (decimalValue s)"
    and "parseInt s (Some 10) = Num (decimalValue s)"
proof -
  obtain a t where s: "s = a # t" using assms(2) by (cases s) auto
  have a: "isDigit a" and t: "list_all isDigit t" using assms(1) s by simp_all
  have S: "dropWhile isWhiteSpace s = s" using s a by (simp add: digit_not_space)
  have hex: "take 2 s \<noteq> ''0x'' \<and> take 2 s \<noteq> ''0X''"
  proof (cases t)
    case Nil
    then show ?thesis using s by simp
  next
    case (Cons b u)
    then have "isDigit b" using t by simp
    then show ?thesis using s Cons isDigit_chars [of b] by auto
  qed
  have Z: "takeWhile (radixDigit 10) s = s"
    using assms(1) by (induction s) (simp_all add: digit_radix10)
  have sign: "take (Suc 0) s \<noteq> ''+'' \<and> take (Suc 0) s \<noteq> ''-''"
    using s isDigit_chars [OF a] by simp
  show "parseInt s None = Num (decimalValue s)"
    using assms by (simp add: parseInt_def Let_def S sign hex Z radixValue_digits)
  show "parseInt s (Some 10) = Num (decimalValue s)"
    using assms by (simp add: parseInt_def Let_def S sign Z radixValue_digits)
qed

lemma decimalValue_snoc: "decimalValue (s @ [c]) = decimalValue s * 10 + decimalDigit c"
  by (simp add: decimalValue_def)

lemma decimalValue_bound:
  "list_all isDigit s \<Longrightarrow> 0 \<le> decimalValue s \<and> decimalValue s < 10 ^ length s"
proof (induction s rule: rev_induct)
  case Nil
  then show ?case by (simp add: decimalValue_def)
next
  case (snoc c s)
  then have "0 \<le> decimalValue s \<and> decimalValue s < 10 ^ length s" by simp
  moreover have "0 \<le> decimalDigit c \<and> decimalDigit c \<le> 9"
    using snoc.prems by (simp add: decimalDigit_range)
  ultimately show ?case by (simp add: decimalValue_snoc)
qed

lemma parseInt_range:
  assumes "list_all isDigit d" and "0 < k" and "10 ^ (k - 1) \<le> lo"
  shows "(num_ge (parseInt (take k d) None) lo \<and> num_le (parseInt (take k d) None) hi)
         = prefixIn k d lo hi"
proof (cases "k \<le> length d")
  case True
  have "list_all isDigit (take k d)" using assms(1) by (simp add: list_all_iff) (meson in_set_takeD)
  moreover have "take k d \<noteq> []" using True assms(2) by auto
  ultimately show ?thesis using True by (simp add: parseInt_digits prefixIn_def)
next
  case False
  then have tk: "take k d = d" by simp
  show ?thesis
  proof (cases "d = []")
    case True
    then show ?thesis using False by (simp add: parseInt_def Let_def prefixIn_def)
  next
    case nonempty: False
    have "decimalValue d < 10 ^ length d" using assms(1) by (simp add: decimalValue_bound)
    also have "\<dots> \<le> (10::int) ^ (k - 1)" using False by (simp add: power_increasing)
    finally have "decimalValue d < lo" using assms(3) by simp
    then show ?thesis using False tk nonempty assms(1) by (simp add: parseInt_digits prefixIn_def)
  qed
qed

lemma of_char_eq_const: "(of_char a = (of_char b :: nat)) = (a = b)"
  by simp

lemma test_5_1to5_prefixIn:
  assumes "list_all isDigit d"
  shows "test_5_1to5 d = prefixIn 2 d 51 55"
proof (cases d)
  case Nil
  then show ?thesis by (simp add: test_5_1to5_def prefixIn_def)
next
  case (Cons a t)
  show ?thesis
  proof (cases t)
    case Nil
    then show ?thesis using Cons by (simp add: test_5_1to5_def prefixIn_def)
  next
    case (Cons b u)
    have a: "isDigit a" and b: "isDigit b" using assms \<open>d = a # t\<close> Cons by simp_all
    have a5: "(a = CHR ''5'') = ((of_char a :: nat) = 53)"
      using of_char_eq_const [of a "CHR ''5''"] by simp
    have ar: "\<And>x y :: nat. 48 \<le> x \<Longrightarrow> x \<le> 57 \<Longrightarrow> 48 \<le> y \<Longrightarrow> y \<le> 57 \<Longrightarrow>
        (x = 53 \<and> 49 \<le> y \<and> y \<le> 53) =
        (51 \<le> (int x - 48) * 10 + (int y - 48) \<and> (int x - 48) * 10 + (int y - 48) \<le> 55)"
      by arith
    have "test_5_1to5 d = ((of_char a :: nat) = 53 \<and> 49 \<le> (of_char b :: nat) \<and> (of_char b :: nat) \<le> 53)"
      using \<open>d = a # t\<close> Cons by (simp add: test_5_1to5_def a5)
    moreover have "prefixIn 2 d 51 55 =
        (51 \<le> (int (of_char a) - 48) * 10 + (int (of_char b) - 48) \<and>
         (int (of_char a) - 48) * 10 + (int (of_char b) - 48) \<le> 55)"
      using \<open>d = a # t\<close> Cons by (simp add: prefixIn_def decimalValue_def decimalDigit_def)
    ultimately show ?thesis
      using a b ar [of "of_char a" "of_char b"] by (simp add: isDigit_def)
  qed
qed

lemma getCardType_classify_spec:
  assumes "list_all isDigit d"
  shows "getCardType d = classify_spec d"
proof (cases "d = []")
  case True
  then show ?thesis by (simp add: getCardType_def classify_spec_def)
next
  case False
  have r4: "(num_ge (parseInt (take 4 d) None) 2221 \<and> num_le (parseInt (take 4 d) None) 2720)
            = prefixIn 4 d 2221 2720"
    using assms by (rule parseInt_range) simp_all
  have r3a: "(num_ge (parseInt (take 3 d) None) 644 \<and> num_le (parseInt (take 3 d) None) 649)
            = prefixIn 3 d 644 649"
    using assms by (rule parseInt_range) simp_all
  have r3b: "(num_ge (parseInt (take 3 d) None) 300 \<and> num_le (parseInt (take 3 d) None) 305)
            = prefixIn 3 d 300 305"
    using assms by (rule parseInt_range) simp_all
  have p2: "\<And>p. length p = 2 \<Longrightarrow> (take 2 d = p) = prefixIs d p"
    by (simp add: prefixIs_take)
  have p4: "(take 4 d = ''6011'') = prefixIs d ''6011''"
    by (simp add: prefixIs_take eval_nat_numeral)
  show ?thesis
    unfolding getCardType_def classify_spec_def Let_def
    using False
    by (simp only: r4 r3a r3b p4 p2 [of "''34''", simplified] p2 [of "''37''", simplified]
        p2 [of "''36''", simplified] p2 [of "''38''", simplified]
        startsWith_prefixIs strAt_0_prefixIs [OF False] test_5_1to5_prefixIn [OF assms] if_False)
      simp
qed

text \<open>
  Claim C4. On a string of digits \<open>getCardType\<close> returns the empty string for
  the empty string and otherwise the label of the first rule that matches, in the
  order Visa, Mastercard, American Express, Discover, JCB, Diners Club, UnionPay,
  Unknown; a rule on more leading digits than the string has does not match (the
  single digit 5 is Unknown). Strings that start with 4111 are Visa, with 5500
  Mastercard; 340000000000009 is American Express and 6011000000000004 Discover.
\<close>

theorem getCardType_rules:
  assumes "isDigitString d"
  shows "getCardType d = classify_spec d
       \<and> getCardType [] = []
       \<and> getCardType ''5'' = ''Unknown''
       \<and> getCardType (''4111'' @ rest) = ''Visa''
       \<and> getCardType (''5500'' @ rest) = ''Mastercard''
       \<and> getCardType ''340000000000009'' = ''American Express''
       \<and> getCardType ''6011000000000004'' = ''Discover''"
proof -
  have a: "getCardType d = classify_spec d"
    using assms by (simp add: getCardType_classify_spec isDigitString_def)
  have b: "getCardType [] = []" by (simp add: getCardType_def)
  have c: "getCardType ''5'' = ''Unknown''" by code_simp
  have d: "getCardType (''4111'' @ rest) = ''Visa''"
    by (simp add: getCardType_def strAt_def)
  have e: "getCardType (''5500'' @ rest) = ''Mastercard''"
    by (simp add: getCardType_def strAt_def test_5_1to5_def)
  have f: "getCardType ''340000000000009'' = ''American Express''" by code_simp
  have g: "getCardType ''6011000000000004'' = ''Discover''" by code_simp
  from a b c d e f g show ?thesis by blast
qed

theorem getCardType_rules_witness:
  "isDigitString ''2720990000000007''
   \<and> getCardType ''2720990000000007'' = classify_spec ''2720990000000007''
   \<and> classify_spec ''2720990000000007'' = ''Mastercard''
   \<and> getCardType ''4111111111111111'' = ''Visa''"
proof -
  have h: "isDigitString ''2720990000000007''" by (simp add: isDigitString_def isDigit_def)
  have v: "classify_spec ''2720990000000007'' = ''Mastercard''" by code_simp
  show ?thesis
    using h v getCardType_rules [OF h, of "''111111111111''"] by simp
qed

section \<open>The emitter and the engine\<close>

lemma emit_loop_effects:
  "i \<le> length queue \<Longrightarrow>
   emit_loop logErr event queue (length queue) i args fx =
   (fx @ concat (map (listener_effects logErr event queue args) [i..<length queue]), None)"
proof (induction "length queue - i" arbitrary: i fx)
  case 0
  then show ?case by (subst emit_loop.simps) simp
next
  case (Suc n)
  then have lt: "i < length queue" by simp
  have step: "tryCatch (apply_listener event queue i args fx)
                (\<lambda>e fx1. (if logErr then fx1 @ [ConsoleError event e] else fx1, None)) =
              (fx @ listener_effects logErr event queue args i, None)"
    by (simp add: tryCatch_def apply_listener_def listener_effects_def split: option.split)
  have "emit_loop logErr event queue (length queue) i args fx =
        emit_loop logErr event queue (length queue) (i + 1) args
          (fx @ listener_effects logErr event queue args i)"
    using lt by (subst emit_loop.simps) (simp add: step andThen_def)
  also have "\<dots> = ((fx @ listener_effects logErr event queue args i) @
        concat (map (listener_effects logErr event queue args) [i + 1..<length queue]), None)"
    using Suc.hyps(1) [of "i + 1"] Suc.hyps(2) lt by simp
  finally show ?case using lt by (simp add: upt_conv_Cons)
qed

lemma emitter_emit_effects:
  "emitter_emit em event args fx = (fx @ dispatch_effects em event args, None)"
  by (simp add: emitter_emit_def dispatch_effects_def Let_def emit_loop_effects split: option.split)

lemma cc_emit_result:
  "cc_emit event arg e =
   (e\<lparr>effects := effects e @ EmitCall event (arg, getState e) #
        dispatch_effects (eventEmitter e) event (arg, getState e)\<rparr>, None)"
  by (simp add: cc_emit_def Let_def emitter_emit_effects)

lemma checkAllValid_result:
  "checkAllValid e =
   (if priv_allValid e \<noteq> allValidNow e
    then (e\<lparr>priv_allValid := allValidNow e,
            effects := effects e @
              EmitCall ''allValid'' (Some (AllValidEvent (allValidNow e)),
                                    getState (e\<lparr>priv_allValid := allValidNow e\<rparr>)) #
              dispatch_effects (eventEmitter e) ''allValid''
                (Some (AllValidEvent (allValidNow e)), getState (e\<lparr>priv_allValid := allValidNow e\<rparr>))\<rparr>,
          None)
    else (e, None))"
proof -
  have eq: "checkAllValid e =
      (if priv_allValid e \<noteq> allValidNow e
       then cc_emit ''allValid'' (Some (AllValidEvent (allValidNow e)))
              (e\<lparr>priv_allValid := allValidNow e\<rparr>)
       else (e, None))"
    unfolding checkAllValid_def allValidNow_def Let_def by (rule refl)
  show ?thesis
  proof (cases "priv_allValid e = allValidNow e")
    case True
    then show ?thesis by (simp only: eq) simp
  next
    case False
    then show ?thesis by (simp only: eq cc_emit_result) simp
  qed
qed

lemma notification_listener_effects:
  "concat (map notification (listener_effects logErr event queue args i)) = []"
  by (auto simp add: listener_effects_def split: option.splits)

lemma notification_dispatch_aux:
  "concat (map notification (concat (map (listener_effects logErr event queue args) is))) = []"
  using notification_listener_effects [of logErr event queue args] by auto

lemma notification_dispatch: "concat (map notification (dispatch_effects em event args)) = []"
proof (cases "events em event")
  case None
  then show ?thesis by (simp add: dispatch_effects_def)
next
  case (Some ls)
  show ?thesis
    unfolding dispatch_effects_def Some option.case
    by (rule notification_dispatch_aux)
qed

lemma invocations_append: "invocations (xs @ ys) = invocations xs @ invocations ys"
  by (simp add: invocations_def)

lemma invocations_listener_effects:
  "invocations (listener_effects logErr event queue args i) = [(event, i, args)]"
  by (auto simp add: invocations_def listener_effects_def split: option.splits)

lemma invocations_dispatch_aux:
  "invocations (concat (map (listener_effects logErr event queue args) is)) =
   map (\<lambda>i. (event, i, args)) is"
proof (induction "is")
  case Nil
  show ?case by (simp add: invocations_def)
next
  case (Cons i "is")
  then show ?case by (simp add: invocations_append invocations_listener_effects)
qed

lemma invocations_dispatch:
  "events em event = Some ls \<Longrightarrow>
   invocations (dispatch_effects em event args) = map (\<lambda>i. (event, i, args)) [0..<length ls]"
  by (simp add: dispatch_effects_def invocations_dispatch_aux)

lemma emit_then_check:
  assumes "andThen (cc_emit ev arg e2) checkAllValid = (e3, x)"
  shows "x = None"
    and "e3 = e2\<lparr>priv_allValid := allValidNow e2, effects := effects e3\<rparr>"
    and "concat (map notification (drop (length (effects e2)) (effects e3))) =
         (ev, arg) # (if priv_allValid e2 \<noteq> allValidNow e2
                      then [(''allValid'', Some (AllValidEvent (allValidNow e2)))] else [])"
proof -
  define e2a where "e2a = e2\<lparr>effects := effects e2 @ EmitCall ev (arg, getState e2) #
        dispatch_effects (eventEmitter e2) ev (arg, getState e2)\<rparr>"
  have r: "(e3, x) = checkAllValid e2a"
    using assms by (simp add: cc_emit_result andThen_def e2a_def)
  have av: "allValidNow e2a = allValidNow e2" "priv_allValid e2a = priv_allValid e2"
    by (simp_all add: e2a_def allValidNow_def)
  show "x = None"
    using r by (simp add: checkAllValid_result split: if_splits)
  show "e3 = e2\<lparr>priv_allValid := allValidNow e2, effects := effects e3\<rparr>"
  proof (cases "priv_allValid e2 = allValidNow e2")
    case True
    then show ?thesis using r av by (simp add: checkAllValid_result e2a_def)
  next
    case False
    then show ?thesis using r av by (simp add: checkAllValid_result) (simp add: e2a_def)
  qed
  show "concat (map notification (drop (length (effects e2)) (effects e3))) =
         (ev, arg) # (if priv_allValid e2 \<noteq> allValidNow e2
                      then [(''allValid'', Some (AllValidEvent (allValidNow e2)))] else [])"
  proof (cases "priv_allValid e2 = allValidNow e2")
    case True
    then have "e3 = e2a" using r av by (simp add: checkAllValid_result)
    then show ?thesis using True by (simp add: e2a_def notification_dispatch)
  next
    case False
    then have "effects e3 = effects e2a @
              EmitCall ''allValid'' (Some (AllValidEvent (allValidNow e2)),
                                    getState (e2a\<lparr>priv_allValid := allValidNow e2\<rparr>)) #
              dispatch_effects (eventEmitter e2a) ''allValid''
                (Some (AllValidEvent (allValidNow e2)), getState (e2a\<lparr>priv_allValid := allValidNow e2\<rparr>))"
      using r av by (simp add: checkAllValid_result)
    then show ?thesis using False by (simp add: e2a_def notification_dispatch)
  qed
qed

lemma emit_then_check_prefix:
  assumes "andThen (cc_emit ev arg e2) checkAllValid = (e3, x)"
  shows "\<exists>sfx. effects e3 = effects e2 @ sfx"
proof -
  define e2a where "e2a = e2\<lparr>effects := effects e2 @ EmitCall ev (arg, getState e2) #
        dispatch_effects (eventEmitter e2) ev (arg, getState e2)\<rparr>"
  have r: "(e3, x) = checkAllValid e2a"
    using assms by (simp add: cc_emit_result andThen_def e2a_def)
  show ?thesis
  proof (cases "priv_allValid e2a = allValidNow e2a")
    case True
    then show ?thesis using r by (simp add: checkAllValid_result e2a_def)
  next
    case False
    then show ?thesis using r by (simp add: checkAllValid_result) (simp add: e2a_def)
  qed
qed

lemma emitted_trans:
  assumes "effects b = effects a @ s1" and "effects c = effects b @ s2"
  shows "emitted a c = emitted a b @ emitted b c"
  using assms by (simp add: emitted_def)

lemma emitted_self: "emitted a a = []"
  by (simp add: emitted_def)

lemma updateCardStatus_shape:
  "updateCardStatus e =
     andThen (cc_emit ''cardStatusChange'' (Some (cardPayload e)) (cardStored e)) checkAllValid"
  by (simp add: updateCardStatus_def cardStored_def cardPayload_def Let_def)

lemma updateExpiryStatus_shape:
  "updateExpiryStatus now e =
     andThen (cc_emit ''expiryStatusChange'' (Some (expiryPayload now e)) (expiryStored now e))
       checkAllValid"
  by (simp add: updateExpiryStatus_def expiryStored_def expiryPayload_def Let_def split: prod.split)

lemma updateCvvStatus_shape:
  "updateCvvStatus e =
     andThen (cc_emit ''cvvStatusChange'' (Some (cvvPayload e)) (cvvStored e)) checkAllValid"
  by (simp add: updateCvvStatus_def cvvStored_def cvvPayload_def Let_def)

lemma field_update:
  assumes shape: "op e = andThen (cc_emit ev arg s) checkAllValid"
    and fx: "effects s = effects e"
    and av: "priv_allValid s = priv_allValid e"
  shows "snd (op e) = None"
    and "fst (op e) = s\<lparr>priv_allValid := allValidNow s, effects := effects (fst (op e))\<rparr>"
    and "emitted e (fst (op e)) =
         (ev, arg) # (if priv_allValid e \<noteq> allValidNow s
                      then [(''allValid'', Some (AllValidEvent (allValidNow s)))] else [])"
    and "\<exists>sfx. effects (fst (op e)) = effects e @ sfx"
proof -
  obtain e3 x where r: "andThen (cc_emit ev arg s) checkAllValid = (e3, x)"
    by (cases "andThen (cc_emit ev arg s) checkAllValid") auto
  have e3: "fst (op e) = e3" and x: "snd (op e) = x" using shape r by simp_all
  show "snd (op e) = None" using emit_then_check(1) [OF r] x by simp
  show "fst (op e) = s\<lparr>priv_allValid := allValidNow s, effects := effects (fst (op e))\<rparr>"
    using emit_then_check(2) [OF r] e3 by simp
  show "emitted e (fst (op e)) =
         (ev, arg) # (if priv_allValid e \<noteq> allValidNow s
                      then [(''allValid'', Some (AllValidEvent (allValidNow s)))] else [])"
    using emit_then_check(3) [OF r] e3 fx av by (simp add: emitted_def)
  show "\<exists>sfx. effects (fst (op e)) = effects e @ sfx"
    using emit_then_check_prefix [OF r] e3 fx by simp
qed

lemma update_twice:
  assumes shape: "\<And>e. op e = andThen (cc_emit ev (Some (pl e)) (st e)) checkAllValid"
    and keep: "\<And>e. effects (st e) = effects e \<and> priv_allValid (st e) = priv_allValid e"
    and idem: "\<And>e a f. st ((st e)\<lparr>priv_allValid := a, effects := f\<rparr>) =
                          (st e)\<lparr>priv_allValid := a, effects := f\<rparr> \<and>
                        pl ((st e)\<lparr>priv_allValid := a, effects := f\<rparr>) = pl e"
  shows "snd (op e) = None"
    and "priv_allValid (fst (op e)) = allValidNow (fst (op e))"
    and "getState (fst (op e)) = (getState (st e))\<lparr>allValid := allValidNow (st e)\<rparr>"
    and "emitted e (fst (op e)) =
         (ev, Some (pl e)) #
           (if priv_allValid (fst (op e)) \<noteq> priv_allValid e
            then [(''allValid'', Some (AllValidEvent (priv_allValid (fst (op e)))))] else [])"
    and "emitted (fst (op e)) (fst (op (fst (op e)))) = [(ev, Some (pl e))]"
    and "getState (fst (op (fst (op e)))) = getState (fst (op e))"
    and "\<exists>sfx. effects (fst (op e)) = effects e @ sfx"
proof -
  define e1 where "e1 = fst (op e)"
  define e2 where "e2 = fst (op e1)"
  note fu = field_update [where op = op, OF shape, of _ ]
  have k: "effects (st e) = effects e" "priv_allValid (st e) = priv_allValid e"
    using keep [of e] by simp_all
  have k1: "effects (st e1) = effects e1" "priv_allValid (st e1) = priv_allValid e1"
    using keep [of e1] by simp_all
  have r1: "e1 = (st e)\<lparr>priv_allValid := allValidNow (st e), effects := effects e1\<rparr>"
    unfolding e1_def using fu(2) [OF k] .
  have st1: "st e1 = e1" and pl1: "pl e1 = pl e"
    using idem [where e = e and a = "allValidNow (st e)" and f = "effects e1"] r1 by simp_all
  have av1: "priv_allValid e1 = allValidNow (st e)"
    by (subst r1) simp
  have avn1: "allValidNow e1 = allValidNow (st e)"
    by (subst r1) (simp add: allValidNow_def)
  have r2: "e2 = (st e1)\<lparr>priv_allValid := allValidNow (st e1), effects := effects e2\<rparr>"
    unfolding e2_def using fu(2) [OF k1] .
  show "snd (op e) = None" using fu(1) [OF k] .
  show "priv_allValid (fst (op e)) = allValidNow (fst (op e))"
    using av1 avn1 by (simp add: e1_def)
  show "getState (fst (op e)) = (getState (st e))\<lparr>allValid := allValidNow (st e)\<rparr>"
    unfolding e1_def [symmetric] by (subst r1) (simp add: getState_def)
  show "emitted e (fst (op e)) =
         (ev, Some (pl e)) #
           (if priv_allValid (fst (op e)) \<noteq> priv_allValid e
            then [(''allValid'', Some (AllValidEvent (priv_allValid (fst (op e)))))] else [])"
    using fu(3) [OF k] av1 by (auto simp add: e1_def)
  show "emitted (fst (op e)) (fst (op (fst (op e)))) = [(ev, Some (pl e))]"
    using fu(3) [OF k1] st1 pl1 av1 avn1 by (simp add: e1_def)
  show "getState (fst (op (fst (op e)))) = getState (fst (op e))"
    unfolding e1_def [symmetric] e2_def [symmetric]
    by (subst r2) (simp add: st1 getState_def av1 avn1)
  show "\<exists>sfx. effects (fst (op e)) = effects e @ sfx" using fu(4) [OF k] .
qed

lemma card_keep: "effects (cardStored e) = effects e \<and> priv_allValid (cardStored e) = priv_allValid e"
  by (simp add: cardStored_def Let_def)

lemma card_idem:
  "cardStored ((cardStored e)\<lparr>priv_allValid := a, effects := f\<rparr>) =
     (cardStored e)\<lparr>priv_allValid := a, effects := f\<rparr> \<and>
   cardPayload ((cardStored e)\<lparr>priv_allValid := a, effects := f\<rparr>) = cardPayload e"
  by (simp add: cardStored_def cardPayload_def Let_def)

lemma expiry_keep:
  "effects (expiryStored now e) = effects e \<and> priv_allValid (expiryStored now e) = priv_allValid e"
  by (simp add: expiryStored_def)

lemma expiry_idem:
  "expiryStored now ((expiryStored now e)\<lparr>priv_allValid := a, effects := f\<rparr>) =
     (expiryStored now e)\<lparr>priv_allValid := a, effects := f\<rparr> \<and>
   expiryPayload now ((expiryStored now e)\<lparr>priv_allValid := a, effects := f\<rparr>) =
     expiryPayload now e"
  by (simp add: expiryStored_def expiryPayload_def Let_def)

lemma cvv_keep: "effects (cvvStored e) = effects e \<and> priv_allValid (cvvStored e) = priv_allValid e"
  by (simp add: cvvStored_def Let_def)

lemma cvv_idem:
  "cvvStored ((cvvStored e)\<lparr>priv_allValid := a, effects := f\<rparr>) =
     (cvvStored e)\<lparr>priv_allValid := a, effects := f\<rparr> \<and>
   cvvPayload ((cvvStored e)\<lparr>priv_allValid := a, effects := f\<rparr>) = cvvPayload e"
  by (simp add: cvvStored_def cvvPayload_def Let_def)

lemmas card_update = update_twice [of updateCardStatus "''cardStatusChange''" cardPayload cardStored,
    OF updateCardStatus_shape card_keep card_idem]

lemmas expiry_update = update_twice [of "updateExpiryStatus now" "''expiryStatusChange''"
    "expiryPayload now" "expiryStored now",
    OF updateExpiryStatus_shape expiry_keep expiry_idem] for now

lemmas cvv_update = update_twice [of updateCvvStatus "''cvvStatusChange''" cvvPayload cvvStored,
    OF updateCvvStatus_shape cvv_keep cvv_idem]

lemma andThen_None: "snd r = None \<Longrightarrow> andThen r f = f (fst r)"
  by (cases r) (simp add: andThen_def)

lemma init_result:
  fixes now e
  defines "e1 \<equiv> fst (updateCardStatus e)"
  defines "e2 \<equiv> fst (updateExpiryStatus now e1)"
  defines "e3 \<equiv> fst (updateCvvStatus e2)"
  shows "init now e =
           (e3\<lparr>effects := effects e3 @ EmitCall ''init'' (None, getState e3) #
                 dispatch_effects (eventEmitter e3) ''init'' (None, getState e3)\<rparr>, None)"
    and "emitted e (fst (init now e)) =
           emitted e e1 @ emitted e1 e2 @ emitted e2 e3 @ [(''init'', None)]"
proof -
  have i: "init now e = cc_emit ''init'' None e3"
    unfolding init_def e1_def e2_def e3_def
    by (simp add: andThen_None card_update(1) expiry_update(1) cvv_update(1))
  show r: "init now e =
           (e3\<lparr>effects := effects e3 @ EmitCall ''init'' (None, getState e3) #
                 dispatch_effects (eventEmitter e3) ''init'' (None, getState e3)\<rparr>, None)"
    by (simp add: i cc_emit_result)
  obtain s1 where s1: "effects e1 = effects e @ s1"
    using card_update(7) [where e = e] e1_def by auto
  obtain s2 where s2: "effects e2 = effects e1 @ s2"
    using expiry_update(7) [where now = now and e = e1] e2_def by auto
  obtain s3 where s3: "effects e3 = effects e2 @ s3"
    using cvv_update(7) [where e = e2] e3_def by auto
  have a: "emitted e e2 = emitted e e1 @ emitted e1 e2"
    using s1 s2 by (rule emitted_trans)
  have b: "emitted e e3 = emitted e e2 @ emitted e2 e3"
    using s3 s1 s2 emitted_trans [where a = e and b = e2 and c = e3 and ?s1.0 = "s1 @ s2" and ?s2.0 = s3] by simp
  have c: "emitted e (fst (init now e)) = emitted e e3 @ [(''init'', None)]"
    using s1 s2 s3 by (simp add: r emitted_def notification_dispatch)
  show "emitted e (fst (init now e)) =
           emitted e e1 @ emitted e1 e2 @ emitted e2 e3 @ [(''init'', None)]"
    using a b c by simp
qed

lemma getState_fields:
  "priv_cardStatus e = cardStatus (getState e)"
  "priv_expiryStatus e = expiryStatus (getState e)"
  "priv_cvvStatus e = cvvStatus (getState e)"
  "priv_allValid e = allValid (getState e)"
  by (simp_all add: getState_def)

lemma stored_other_fields:
  "priv_expiryStatus (cardStored e) = priv_expiryStatus e"
  "priv_cvvStatus (cardStored e) = priv_cvvStatus e"
  "priv_cardStatus (expiryStored now e) = priv_cardStatus e"
  "priv_cvvStatus (expiryStored now e) = priv_cvvStatus e"
  "priv_cardStatus (cvvStored e) = priv_cardStatus e"
  "priv_expiryStatus (cvvStored e) = priv_expiryStatus e"
  by (simp_all add: cardStored_def expiryStored_def cvvStored_def Let_def)

lemma getState_statuses:
  assumes "getState a = (getState b)\<lparr>allValid := v\<rparr>"
  shows "priv_cardStatus a = priv_cardStatus b"
    and "priv_expiryStatus a = priv_expiryStatus b"
    and "priv_cvvStatus a = priv_cvvStatus b"
  using assms by (simp_all add: getState_def)

lemma update_other_fields:
  "priv_expiryStatus (fst (updateCardStatus e)) = priv_expiryStatus e"
  "priv_cvvStatus (fst (updateCardStatus e)) = priv_cvvStatus e"
  "priv_cardStatus (fst (updateExpiryStatus now e)) = priv_cardStatus e"
  "priv_cvvStatus (fst (updateExpiryStatus now e)) = priv_cvvStatus e"
  "priv_cardStatus (fst (updateCvvStatus e)) = priv_cardStatus e"
  "priv_expiryStatus (fst (updateCvvStatus e)) = priv_expiryStatus e"
  using getState_statuses [OF card_update(3)] getState_statuses [OF expiry_update(3)]
    getState_statuses [OF cvv_update(3)]
  by (simp_all add: stored_other_fields)

lemma init_allValid:
  fixes now c x v em
  defines "e0 \<equiv> (new_CreditCardInput c x v)\<lparr>eventEmitter := em\<rparr>"
  shows "priv_allValid (fst (init now e0)) = allValidNow (fst (init now e0))"
    and "filter (\<lambda>n. fst n = ''allValid'') (emitted e0 (fst (init now e0))) =
         (if priv_allValid (fst (init now e0))
          then [(''allValid'', Some (AllValidEvent True))] else [])"
proof -
  define e1 where "e1 = fst (updateCardStatus e0)"
  define e2 where "e2 = fst (updateExpiryStatus now e1)"
  define e3 where "e3 = fst (updateCvvStatus e2)"
  have ir: "init now e0 =
           (e3\<lparr>effects := effects e3 @ EmitCall ''init'' (None, getState e3) #
                 dispatch_effects (eventEmitter e3) ''init'' (None, getState e3)\<rparr>, None)"
    "emitted e0 (fst (init now e0)) =
           emitted e0 e1 @ emitted e1 e2 @ emitted e2 e3 @ [(''init'', None)]"
    using init_result [where now = now and e = e0] by (simp_all add: e1_def e2_def e3_def)
  have f0: "priv_allValid e0 = False" "priv_expiryStatus e0 = neutral" "priv_cvvStatus e0 = neutral"
    by (simp_all add: e0_def new_CreditCardInput_def)
  have av1: "priv_allValid e1 = False"
    using card_update(2) [where e = e0] update_other_fields(1) [where e = e0] f0
    by (simp add: e1_def allValidNow_def)
  have cvv2: "priv_cvvStatus e2 = neutral"
    using update_other_fields(2) [where e = e0] update_other_fields(4) [where now = now and e = e1] f0
    by (simp add: e1_def e2_def)
  have av2: "priv_allValid e2 = False"
    using expiry_update(2) [where now = now and e = e1] cvv2 by (simp add: e2_def allValidNow_def)
  have m1: "emitted e0 e1 = [(''cardStatusChange'', Some (cardPayload e0))]"
    using card_update(4) [where e = e0] av1 f0 by (simp add: e1_def)
  have m2: "emitted e1 e2 = [(''expiryStatusChange'', Some (expiryPayload now e1))]"
    using expiry_update(4) [where now = now and e = e1] av1 av2 by (simp add: e2_def)
  have m3: "emitted e2 e3 = (''cvvStatusChange'', Some (cvvPayload e2)) #
              (if priv_allValid e3 then [(''allValid'', Some (AllValidEvent True))] else [])"
    using cvv_update(4) [where e = e2] av2 by (simp add: e3_def)
  have fin: "priv_allValid (fst (init now e0)) = priv_allValid e3"
    "allValidNow (fst (init now e0)) = allValidNow e3"
    by (simp_all add: ir(1) allValidNow_def)
  show "priv_allValid (fst (init now e0)) = allValidNow (fst (init now e0))"
    using cvv_update(2) [where e = e2] fin by (simp add: e3_def)
  show "filter (\<lambda>n. fst n = ''allValid'') (emitted e0 (fst (init now e0))) =
         (if priv_allValid (fst (init now e0))
          then [(''allValid'', Some (AllValidEvent True))] else [])"
    by (simp add: ir(2) m1 m2 m3 fin)
qed

section \<open>The status of the fields and the notifications\<close>

lemma expiryEval_spec:
  assumes "list_all isDigit d"
  shows "expiryEval now d =
         (case expiry_spec (fullYear now) (monthIndex now + 1) d of
            (st, m, y) \<Rightarrow> (st, map_option Num m, map_option Num y))"
proof (cases "length d = 4")
  case False
  then show ?thesis by (simp add: expiryEval_def expiry_spec_def)
next
  case True
  have t: "list_all isDigit (take 2 d)" "take 2 d \<noteq> []"
    using assms True by (auto simp add: list_all_iff dest: in_set_takeD)
  have dr: "list_all isDigit (drop 2 d)" "drop 2 d \<noteq> []" "take 2 (drop 2 d) = drop 2 d"
    using assms True by (auto simp add: list_all_iff dest: in_set_dropD)
  have m: "parseInt (take 2 d) (Some 10) = Num (decimalValue (take 2 d))"
    using t by (rule parseInt_digits(2))
  have y: "parseInt (take 2 (drop 2 d)) (Some 10) = Num (decimalValue (drop 2 d))"
    using parseInt_digits(2) [OF dr(1) dr(2)] dr(3) by simp
  have y2: "parseInt (drop 2 d) (Some 10) = Num (decimalValue (drop 2 d))"
    using dr(1) dr(2) by (rule parseInt_digits(2))
  show ?thesis
    using True by (auto simp add: expiryEval_def expiry_spec_def Let_def m y y2)
qed

text \<open>
  Claim C3. The status of the expiry field is a function of the digits of the field
  and of the current date: neutral, with month and year null, unless there are
  exactly four digits; otherwise the month is the first two digits and the year 2000
  plus the last two, and the status is invalid when the month is outside 1..12,
  valid when the expiry month lies between the current month and the month 120
  months later, both included, and invalid otherwise. With the current date in
  June 2024: 0624 valid, 0524 invalid, 0634 valid, 0635 invalid, 1324 invalid,
  062 neutral.
\<close>

theorem expiry_status_function:
  "priv_expiryStatus (fst (updateExpiryStatus now e)) =
     fst (expiry_spec (fullYear now) (monthIndex now + 1) (extractDigits (val (expiryInput e))))
   \<and> filter (\<lambda>n. fst n = ''expiryStatusChange'') (emitted e (fst (updateExpiryStatus now e))) =
       [(''expiryStatusChange'',
         Some (case expiry_spec (fullYear now) (monthIndex now + 1)
                      (extractDigits (val (expiryInput e))) of
                 (st, m, y) \<Rightarrow>
                   ExpiryStatusEvent st (val (expiryInput e)) (extractDigits (val (expiryInput e)))
                     (map_option Num m) (map_option Num y)))]
   \<and> expiryEval now (extractDigits raw) =
       (case expiry_spec (fullYear now) (monthIndex now + 1) (extractDigits raw) of
          (st, m, y) \<Rightarrow> (st, map_option Num m, map_option Num y))
   \<and> fst (expiryEval \<lparr>fullYear = 2024, monthIndex = 5\<rparr> ''0624'') = valid
   \<and> fst (expiryEval \<lparr>fullYear = 2024, monthIndex = 5\<rparr> ''0524'') = invalid
   \<and> fst (expiryEval \<lparr>fullYear = 2024, monthIndex = 5\<rparr> ''0634'') = valid
   \<and> fst (expiryEval \<lparr>fullYear = 2024, monthIndex = 5\<rparr> ''0635'') = invalid
   \<and> fst (expiryEval \<lparr>fullYear = 2024, monthIndex = 5\<rparr> ''1324'') = invalid
   \<and> expiryEval \<lparr>fullYear = 2024, monthIndex = 5\<rparr> ''062'' = (neutral, None, None)"
proof -
  define digits where "digits = extractDigits (val (expiryInput e))"
  have dg: "list_all isDigit digits" "list_all isDigit (extractDigits raw)"
    by (simp_all add: digits_def extractDigits_def list_all_iff)
  note ev = expiryEval_spec [OF dg(1), of now]
  have st: "priv_expiryStatus (fst (updateExpiryStatus now e)) = fst (expiryEval now digits)"
    using getState_statuses(2) [OF expiry_update(3)]
    by (simp add: expiryStored_def digits_def)
  have a: "priv_expiryStatus (fst (updateExpiryStatus now e)) =
     fst (expiry_spec (fullYear now) (monthIndex now + 1) digits)"
    by (simp add: st ev split: prod.split)
  have b: "filter (\<lambda>n. fst n = ''expiryStatusChange'') (emitted e (fst (updateExpiryStatus now e))) =
       [(''expiryStatusChange'',
         Some (case expiry_spec (fullYear now) (monthIndex now + 1) digits of
                 (st, m, y) \<Rightarrow>
                   ExpiryStatusEvent st (val (expiryInput e)) digits
                     (map_option Num m) (map_option Num y)))]"
    by (simp add: expiry_update(4) expiryPayload_def Let_def digits_def [symmetric] ev
        split: prod.split)
  have c: "expiryEval now (extractDigits raw) =
       (case expiry_spec (fullYear now) (monthIndex now + 1) (extractDigits raw) of
          (st, m, y) \<Rightarrow> (st, map_option Num m, map_option Num y))"
    using dg(2) by (rule expiryEval_spec)
  have x1: "fst (expiryEval \<lparr>fullYear = 2024, monthIndex = 5\<rparr> ''0624'') = valid" by code_simp
  have x2: "fst (expiryEval \<lparr>fullYear = 2024, monthIndex = 5\<rparr> ''0524'') = invalid" by code_simp
  have x3: "fst (expiryEval \<lparr>fullYear = 2024, monthIndex = 5\<rparr> ''0634'') = valid" by code_simp
  have x4: "fst (expiryEval \<lparr>fullYear = 2024, monthIndex = 5\<rparr> ''0635'') = invalid" by code_simp
  have x5: "fst (expiryEval \<lparr>fullYear = 2024, monthIndex = 5\<rparr> ''1324'') = invalid" by code_simp
  have x6: "expiryEval \<lparr>fullYear = 2024, monthIndex = 5\<rparr> ''062'' = (neutral, None, None)"
    by code_simp
  from a b c x1 x2 x3 x4 x5 x6 show ?thesis unfolding digits_def by blast
qed

theorem expiry_status_function_witness:
  "priv_expiryStatus
     (fst (updateExpiryStatus \<lparr>fullYear = 2024, monthIndex = 5\<rparr>
        (new_CreditCardInput
           \<lparr>val = [], selectionStart = None, selectionEnd = None\<rparr>
           \<lparr>val = ''06 / 34'', selectionStart = Some 7, selectionEnd = Some 7\<rparr>
           \<lparr>val = [], selectionStart = None, selectionEnd = None\<rparr>))) = valid
   \<and> expiryEval \<lparr>fullYear = 2024, monthIndex = 5\<rparr> (extractDigits ''07/34'') =
       (invalid, Some (Num 7), Some (Num 2034))"
proof -
  have x: "extractDigits ''06 / 34'' = ''0634''" "extractDigits ''07/34'' = ''0734''"
    by (simp_all add: extractDigits_def isDigit_def)
  have v: "expiry_spec 2024 6 ''0634'' = (valid, Some 6, Some 2034)"
    "expiry_spec 2024 6 ''0734'' = (invalid, Some 7, Some 2034)"
    by code_simp+
  show ?thesis
    using expiry_status_function [of "\<lparr>fullYear = 2024, monthIndex = 5\<rparr>"
        "new_CreditCardInput
           \<lparr>val = [], selectionStart = None, selectionEnd = None\<rparr>
           \<lparr>val = ''06 / 34'', selectionStart = Some 7, selectionEnd = Some 7\<rparr>
           \<lparr>val = [], selectionStart = None, selectionEnd = None\<rparr>" "''07/34''"]
    by (simp add: x v new_CreditCardInput_def)
qed

text \<open>
  Claim C7. After every status update of a field the flag \<open>allValid\<close> of the engine
  is the conjunction "card valid and expiry valid and CVV valid", and an
  \<open>allValid\<close> notification carrying the new flag is emitted exactly when the flag
  differs from its previous value; evaluating the same field again emits none. The
  initial pass of \<open>init\<close> on a new engine leaves the flag equal to the conjunction
  and announces it once if it has become true. When the flag was false and the update
  makes all three fields valid, exactly one notification, carrying true, is emitted.
\<close>

theorem allValid_follows_statuses:
  assumes "op = updateCardStatus \<or> op = updateExpiryStatus now \<or> op = updateCvvStatus"
  shows "priv_allValid (fst (op e)) =
           (priv_cardStatus (fst (op e)) = valid \<and> priv_expiryStatus (fst (op e)) = valid \<and>
            priv_cvvStatus (fst (op e)) = valid)
       \<and> filter (\<lambda>n. fst n = ''allValid'') (emitted e (fst (op e))) =
           (if priv_allValid (fst (op e)) \<noteq> priv_allValid e
            then [(''allValid'', Some (AllValidEvent (priv_allValid (fst (op e)))))] else [])
       \<and> filter (\<lambda>n. fst n = ''allValid'') (emitted (fst (op e)) (fst (op (fst (op e))))) = []
       \<and> (\<not> priv_allValid e \<and> priv_allValid (fst (op e)) \<longrightarrow>
            filter (\<lambda>n. fst n = ''allValid'') (emitted e (fst (op e))) =
              [(''allValid'', Some (AllValidEvent True))])
       \<and> priv_allValid (fst (init now ((new_CreditCardInput c x v)\<lparr>eventEmitter := em\<rparr>))) =
           allValidNow (fst (init now ((new_CreditCardInput c x v)\<lparr>eventEmitter := em\<rparr>)))
       \<and> filter (\<lambda>n. fst n = ''allValid'')
             (emitted ((new_CreditCardInput c x v)\<lparr>eventEmitter := em\<rparr>)
                (fst (init now ((new_CreditCardInput c x v)\<lparr>eventEmitter := em\<rparr>)))) =
           (if priv_allValid (fst (init now ((new_CreditCardInput c x v)\<lparr>eventEmitter := em\<rparr>)))
            then [(''allValid'', Some (AllValidEvent True))] else [])"
proof -
  have upd: "priv_allValid (fst (op e)) = allValidNow (fst (op e))
       \<and> filter (\<lambda>n. fst n = ''allValid'') (emitted e (fst (op e))) =
           (if priv_allValid (fst (op e)) \<noteq> priv_allValid e
            then [(''allValid'', Some (AllValidEvent (priv_allValid (fst (op e)))))] else [])
       \<and> filter (\<lambda>n. fst n = ''allValid'') (emitted (fst (op e)) (fst (op (fst (op e))))) = []"
    using assms
  proof (elim disjE)
    assume o: "op = updateCardStatus"
    show ?thesis unfolding o
      using card_update(2) [where e = e] card_update(4) [where e = e]
        card_update(5) [where e = e] by simp
  next
    assume o: "op = updateExpiryStatus now"
    show ?thesis unfolding o
      using expiry_update(2) [where e = e and now = now] expiry_update(4) [where e = e and now = now]
        expiry_update(5) [where e = e and now = now] by simp
  next
    assume o: "op = updateCvvStatus"
    show ?thesis unfolding o
      using cvv_update(2) [where e = e] cvv_update(4) [where e = e]
        cvv_update(5) [where e = e] by simp
  qed
  then have a: "priv_allValid (fst (op e)) =
           (priv_cardStatus (fst (op e)) = valid \<and> priv_expiryStatus (fst (op e)) = valid \<and>
            priv_cvvStatus (fst (op e)) = valid)"
    by (simp add: allValidNow_def)
  have b: "\<not> priv_allValid e \<and> priv_allValid (fst (op e)) \<longrightarrow>
            filter (\<lambda>n. fst n = ''allValid'') (emitted e (fst (op e))) =
              [(''allValid'', Some (AllValidEvent True))]"
    using upd by simp
  from upd a b init_allValid [where now = now and c = c and x = x and v = v and em = em] show ?thesis by blast
qed

lemma demo2_statuses:
  "priv_cardStatus demo2 = valid" "priv_expiryStatus demo2 = valid"
  "priv_cvvStatus demo2 = neutral" "priv_allValid demo2 = False"
  by code_simp+

lemma demo2_cvv: "priv_cvvStatus (fst (updateCvvStatus demo2)) = valid"
  by code_simp

theorem allValid_follows_statuses_witness:
  "\<not> priv_allValid demo2
   \<and> priv_allValid (fst (updateCvvStatus demo2))
   \<and> filter (\<lambda>n. fst n = ''allValid'') (emitted demo2 (fst (updateCvvStatus demo2))) =
       [(''allValid'', Some (AllValidEvent True))]
   \<and> filter (\<lambda>n. fst n = ''allValid'')
       (emitted (fst (updateCvvStatus demo2)) (fst (updateCvvStatus (fst (updateCvvStatus demo2))))) = []"
proof -
  have o: "updateCvvStatus = updateCardStatus \<or> updateCvvStatus = updateExpiryStatus june2024 \<or>
           updateCvvStatus = updateCvvStatus" by simp
  show ?thesis
    using allValid_follows_statuses [OF o, of demo2] demo2_statuses demo2_cvv
    by (simp add: update_other_fields)
qed

lemma stored_emitter:
  "getState (cardStored (e\<lparr>eventEmitter := em\<rparr>)) = getState (cardStored e)"
  "allValidNow (cardStored (e\<lparr>eventEmitter := em\<rparr>)) = allValidNow (cardStored e)"
  "getState (expiryStored now (e\<lparr>eventEmitter := em\<rparr>)) = getState (expiryStored now e)"
  "allValidNow (expiryStored now (e\<lparr>eventEmitter := em\<rparr>)) = allValidNow (expiryStored now e)"
  "getState (cvvStored (e\<lparr>eventEmitter := em\<rparr>)) = getState (cvvStored e)"
  "allValidNow (cvvStored (e\<lparr>eventEmitter := em\<rparr>)) = allValidNow (cvvStored e)"
  by (simp_all add: cardStored_def expiryStored_def cvvStored_def getState_def allValidNow_def
      Let_def)

text \<open>
  Claim C8. When a listener throws while an event is emitted, every listener of the
  event is still called, in order, with the same arguments; \<open>emit\<close> completes
  normally, with at most a console line for the exception; a field update completes
  normally too, and the state it leaves does not depend on what the listeners do.
\<close>

theorem listener_exceptions_contained:
  assumes "events em event = Some ls"
    and "op = updateCardStatus \<or> op = updateExpiryStatus now \<or> op = updateCvvStatus"
  shows "snd (emitter_emit em event args fx) = None
       \<and> fst (emitter_emit em event args fx) = fx @ dispatch_effects em event args
       \<and> invocations (dispatch_effects em event args) =
           map (\<lambda>i. (event, i, args)) [0..<length ls]
       \<and> snd (op e) = None
       \<and> getState (fst (op e)) = getState (fst (op (e\<lparr>eventEmitter := em'\<rparr>)))"
proof -
  have a: "snd (emitter_emit em event args fx) = None
       \<and> fst (emitter_emit em event args fx) = fx @ dispatch_effects em event args"
    by (simp add: emitter_emit_effects)
  have b: "invocations (dispatch_effects em event args) =
           map (\<lambda>i. (event, i, args)) [0..<length ls]"
    using assms(1) by (rule invocations_dispatch)
  have c: "snd (op e) = None
       \<and> getState (fst (op e)) = getState (fst (op (e\<lparr>eventEmitter := em'\<rparr>)))"
    using assms(2)
  proof (elim disjE)
    assume o: "op = updateCardStatus"
    show ?thesis unfolding o by (simp add: card_update(1,3) stored_emitter)
  next
    assume o: "op = updateExpiryStatus now"
    show ?thesis unfolding o by (simp add: expiry_update(1,3) stored_emitter)
  next
    assume o: "op = updateCvvStatus"
    show ?thesis unfolding o by (simp add: cvv_update(1,3) stored_emitter)
  qed
  from a b c show ?thesis by blast
qed

theorem listener_exceptions_contained_witness:
  "events (eventEmitter demo) ''cardStatusChange'' = Some [throwing, quiet]
   \<and> snd (emitter_emit (eventEmitter demo) ''cardStatusChange'' (None, getState demo) []) = None
   \<and> fst (emitter_emit (eventEmitter demo) ''cardStatusChange'' (None, getState demo) []) =
       [Invoke ''cardStatusChange'' 0 (None, getState demo),
        ConsoleError ''cardStatusChange'' ''boom'',
        Invoke ''cardStatusChange'' 1 (None, getState demo)]
   \<and> invocations (dispatch_effects (eventEmitter demo) ''cardStatusChange'' (None, getState demo)) =
       [(''cardStatusChange'', 0, (None, getState demo)),
        (''cardStatusChange'', 1, (None, getState demo))]
   \<and> snd (updateCardStatus demo) = None
   \<and> getState (fst (updateCardStatus demo)) =
       getState (fst (updateCardStatus (demo\<lparr>eventEmitter := new_EventEmitterLite\<rparr>)))"
proof -
  have h: "events (eventEmitter demo) ''cardStatusChange'' = Some [throwing, quiet]"
    by (simp add: demo_def cc_on_def emitter_on_def new_CreditCardInput_def
        new_EventEmitterLite_def)
  have l: "logErrors (eventEmitter demo)"
    by (simp add: demo_def cc_on_def emitter_on_def new_CreditCardInput_def
        new_EventEmitterLite_def)
  have o: "updateCardStatus = updateCardStatus \<or> updateCardStatus = updateExpiryStatus june2024 \<or>
           updateCardStatus = updateCvvStatus" by simp
  have d: "dispatch_effects (eventEmitter demo) ''cardStatusChange'' (None, getState demo) =
       [Invoke ''cardStatusChange'' 0 (None, getState demo),
        ConsoleError ''cardStatusChange'' ''boom'',
        Invoke ''cardStatusChange'' 1 (None, getState demo)]"
    by (simp add: dispatch_effects_def h l listener_effects_def throwing_def quiet_def
        upt_conv_Cons)
  show ?thesis
    using listener_exceptions_contained [OF h o, of "(None, getState demo)" "[]" demo
        new_EventEmitterLite] h d
    by (simp add: upt_conv_Cons)
qed

text \<open>
  Claim C9. Every call of a status update emits exactly one notification of its own
  field, whatever the previous evaluation was: calling it again emits the same
  notification with the same payload, and nothing else. Only the \<open>allValid\<close>
  notification depends on a change of value.
\<close>

theorem field_notification_every_call:
  assumes "(op, ev) = (updateCardStatus, ''cardStatusChange'')
         \<or> (op, ev) = (updateExpiryStatus now, ''expiryStatusChange'')
         \<or> (op, ev) = (updateCvvStatus, ''cvvStatusChange'')"
  shows "map fst (filter (\<lambda>n. fst n \<in> set fieldEvents) (emitted e (fst (op e)))) = [ev]
       \<and> filter (\<lambda>n. fst n \<notin> set fieldEvents) (emitted e (fst (op e))) =
           (if priv_allValid (fst (op e)) \<noteq> priv_allValid e
            then [(''allValid'', Some (AllValidEvent (priv_allValid (fst (op e)))))] else [])
       \<and> getState (fst (op (fst (op e)))) = getState (fst (op e))
       \<and> emitted (fst (op e)) (fst (op (fst (op e)))) =
           filter (\<lambda>n. fst n \<in> set fieldEvents) (emitted e (fst (op e)))"
  using assms
proof (elim disjE)
  assume "(op, ev) = (updateCardStatus, ''cardStatusChange'')"
  then have o: "op = updateCardStatus" "ev = ''cardStatusChange''" by simp_all
  show ?thesis unfolding o
    using card_update(4) [where e = e] card_update(5) [where e = e] card_update(6) [where e = e]
    by (simp add: fieldEvents_def)
next
  assume "(op, ev) = (updateExpiryStatus now, ''expiryStatusChange'')"
  then have o: "op = updateExpiryStatus now" "ev = ''expiryStatusChange''" by simp_all
  show ?thesis unfolding o
    using expiry_update(4) [where e = e and now = now] expiry_update(5) [where e = e and now = now]
      expiry_update(6) [where e = e and now = now]
    by (simp add: fieldEvents_def)
next
  assume "(op, ev) = (updateCvvStatus, ''cvvStatusChange'')"
  then have o: "op = updateCvvStatus" "ev = ''cvvStatusChange''" by simp_all
  show ?thesis unfolding o
    using cvv_update(4) [where e = e] cvv_update(5) [where e = e] cvv_update(6) [where e = e]
    by (simp add: fieldEvents_def)
qed

theorem field_notification_every_call_witness:
  "emitted demo (fst (updateCardStatus demo)) =
     [(''cardStatusChange'',
       Some (CardStatusEvent valid ''4111 1111 1111 1111'' ''4111111111111111'' ''Visa''
              False True 16))]
   \<and> emitted (fst (updateCardStatus demo)) (fst (updateCardStatus (fst (updateCardStatus demo)))) =
     [(''cardStatusChange'',
       Some (CardStatusEvent valid ''4111 1111 1111 1111'' ''4111111111111111'' ''Visa''
              False True 16))]
   \<and> getState (fst (updateCardStatus (fst (updateCardStatus demo)))) =
       getState (fst (updateCardStatus demo))"
proof -
  have o: "(updateCardStatus, ''cardStatusChange'') = (updateCardStatus, ''cardStatusChange'')
         \<or> (updateCardStatus, ''cardStatusChange'') = (updateExpiryStatus june2024, ''expiryStatusChange'')
         \<or> (updateCardStatus, ''cardStatusChange'') = (updateCvvStatus, ''cvvStatusChange'')"
    by simp
  have v: "emitted demo (fst (updateCardStatus demo)) =
     [(''cardStatusChange'',
       Some (CardStatusEvent valid ''4111 1111 1111 1111'' ''4111111111111111'' ''Visa''
              False True 16))]"
    by code_simp
  show ?thesis
    using field_notification_every_call [OF o, of demo] v by (simp add: fieldEvents_def)
qed

section \<open>The card number formatter\<close>

lemma strAt_in: "i < length s \<Longrightarrow> strAt s i = [s ! i]"
  by (simp add: strAt_def)

lemma plain_loop_spec:
  "plain_loop d i f =
   f @ concat (map (\<lambda>i. (if 0 < i \<and> i mod 4 = 0 then [space] else []) @ [d ! i]) [i..<length d])"
proof (induction "length d - i" arbitrary: i f)
  case 0
  then show ?case by (subst plain_loop.simps) simp
next
  case (Suc n)
  then have lt: "i < length d" by simp
  have "plain_loop d i f =
        plain_loop d (i + 1) ((if i > 0 \<and> i mod 4 = 0 then f @ '' '' else f) @ [d ! i])"
    using lt by (subst plain_loop.simps) (simp add: strAt_in)
  also have "\<dots> = ((if i > 0 \<and> i mod 4 = 0 then f @ '' '' else f) @ [d ! i]) @
      concat (map (\<lambda>i. (if 0 < i \<and> i mod 4 = 0 then [space] else []) @ [d ! i]) [i + 1..<length d])"
    using Suc.hyps(1) [of "i + 1"] Suc.hyps(2) by simp
  finally show ?case using lt by (simp add: upt_conv_Cons space_def)
qed

lemma amex_inner_spec:
  "k \<le> length d \<Longrightarrow>
   amex_inner d g j (f, k) = (f @ take (g - j) (drop k d), min (k + (g - j)) (length d))"
proof (induction "g - j" arbitrary: j f k)
  case 0
  then show ?case by (subst amex_inner.simps) simp
next
  case (Suc n)
  then have lt: "j < g" by simp
  show ?case
  proof (cases "k < length d")
    case True
    have "amex_inner d g j (f, k) = amex_inner d g (j + 1) (f @ [d ! k], k + 1)"
      using lt True by (subst amex_inner.simps) (simp add: strAt_in)
    also have "\<dots> = ((f @ [d ! k]) @ take (g - (j + 1)) (drop (k + 1) d),
                      min (k + 1 + (g - (j + 1))) (length d))"
      using Suc.hyps(1) [of "j + 1" "k + 1" "f @ [d ! k]"] Suc.hyps(2) True by simp
    also have "(f @ [d ! k]) @ take (g - (j + 1)) (drop (k + 1) d) = f @ take (g - j) (drop k d)"
    proof -
      have "drop k d = d ! k # drop (k + 1) d" using True by (simp add: Cons_nth_drop_Suc)
      moreover have "g - j = Suc (g - (j + 1))" using lt by simp
      ultimately show ?thesis by simp
    qed
    finally show ?thesis using lt by simp
  next
    case False
    then have k: "k = length d" using Suc.prems by simp
    have "amex_inner d g j (f, k) = amex_inner d g (j + 1) (f, k)"
      using lt k by (subst amex_inner.simps) simp
    also have "\<dots> = (f @ take (g - (j + 1)) (drop k d), min (k + (g - (j + 1))) (length d))"
      using Suc.hyps(1) [of "j + 1" k f] Suc.hyps(2) Suc.prems by simp
    finally show ?thesis using k by simp
  qed
qed

lemma amex_outer_spec: "fst (amex_outer d [4, 6, 5] 0 ([], 0)) = amex_groups_spec d"
proof -
  have s0: "amex_outer d [4, 6, 5] 0 ([], 0) =
            amex_outer d [4, 6, 5] 1
              (if 4 < length d then (take 4 d @ '' '', min 4 (length d)) else (take 4 d, min 4 (length d)))"
    by (subst amex_outer.simps) (simp add: amex_inner_spec min_def)
  have s1: "\<And>f k. k = min 4 (length d) \<Longrightarrow>
            amex_outer d [4, 6, 5] (Suc 0) (f, k) =
            amex_outer d [4, 6, 5] (Suc (Suc 0))
              (if 10 < length d then (f @ take 6 (drop 4 d) @ '' '', min 10 (length d))
               else (f @ take 6 (drop 4 d), min 10 (length d)))"
    by (subst amex_outer.simps) (auto simp add: amex_inner_spec min_def)
  have s2: "\<And>f k. k = min 10 (length d) \<Longrightarrow>
            amex_outer d [4, 6, 5] (Suc (Suc 0)) (f, k) =
            amex_outer d [4, 6, 5] (Suc (Suc (Suc 0))) (f @ take 5 (drop 10 d), min 15 (length d))"
    by (subst amex_outer.simps) (auto simp add: amex_inner_spec min_def)
  have s3: "\<And>f k. amex_outer d [4, 6, 5] (Suc (Suc (Suc 0))) (f, k) = (f, k)"
    by (subst amex_outer.simps) simp
  show ?thesis
    by (simp add: s0 s1 s2 s3 amex_groups_spec_def space_def)
qed

lemma isProbablyAmex_iff: "isProbablyAmex d = amexPrefix d"
proof -
  have l: "length ''34'' = 2" "length ''37'' = 2" by simp_all
  show ?thesis unfolding isProbablyAmex_def startsWith_def amexPrefix_def l ..
qed

lemma formatCardNumber_val: "val (formatCardNumber inp) = card_format_spec (val inp)"
proof (cases "isProbablyAmex (extractDigits (val inp))")
  case True
  then have "val (formatCardNumber inp) = amex_groups_spec (take 15 (extractDigits (val inp)))"
    by (simp add: formatCardNumber_def Let_def setSelectionRange_def amex_outer_spec)
  moreover have "card_format_spec (val inp) = amex_groups_spec (take 15 (extractDigits (val inp)))"
    using True by (simp add: isProbablyAmex_iff card_format_spec_def truncatedDigits_def)
  ultimately show ?thesis by simp
next
  case False
  then have "val (formatCardNumber inp) = plain_groups_spec (take 16 (extractDigits (val inp)))"
    by (simp add: formatCardNumber_def Let_def setSelectionRange_def plain_loop_spec
        plain_groups_spec_def)
  moreover have "card_format_spec (val inp) = plain_groups_spec (take 16 (extractDigits (val inp)))"
    using False by (simp add: isProbablyAmex_iff card_format_spec_def truncatedDigits_def)
  ultimately show ?thesis by simp
qed

lemma not_digit_space: "\<not> isDigit space"
  by (simp add: isDigit_def space_def)

lemma filter_digits_id: "list_all isDigit xs \<Longrightarrow> filter isDigit xs = xs"
  by (induction xs) simp_all

lemma list_all_take_drop:
  "list_all P xs \<Longrightarrow> list_all P (take n xs)" "list_all P xs \<Longrightarrow> list_all P (drop n xs)"
  by (auto simp add: list_all_iff dest: in_set_takeD in_set_dropD)

lemma three_groups: "take 4 t @ take 6 (drop 4 t) @ take 5 (drop 10 t) = take 15 t"
proof -
  have "take 15 t = take (4 + 11) t" by simp
  also have "\<dots> = take 4 t @ take 11 (drop 4 t)" by (rule take_add)
  also have "take 11 (drop 4 t) = take (6 + 5) (drop 4 t)" by simp
  also have "\<dots> = take 6 (drop 4 t) @ take 5 (drop 6 (drop 4 t))" by (rule take_add)
  finally show ?thesis by simp
qed

lemma amex_groups_digits:
  assumes "list_all isDigit t"
  shows "extractDigits (amex_groups_spec t) = take 15 t"
proof -
  have "extractDigits (amex_groups_spec t) =
        filter isDigit (take 4 t) @ filter isDigit (take 6 (drop 4 t)) @
        filter isDigit (take 5 (drop 10 t))"
    by (simp add: extractDigits_def amex_groups_spec_def not_digit_space)
  also have "\<dots> = take 4 t @ take 6 (drop 4 t) @ take 5 (drop 10 t)"
    using assms by (simp add: filter_digits_id list_all_take_drop)
  finally show ?thesis by (simp add: three_groups)
qed

lemma plain_groups_upto:
  assumes "list_all isDigit d"
  shows "n \<le> length d \<Longrightarrow>
         filter isDigit (concat (map (\<lambda>i. (if 0 < i \<and> i mod 4 = 0 then [space] else []) @ [d ! i])
           [0..<n])) = take n d"
proof (induction n)
  case 0
  show ?case by simp
next
  case (Suc n)
  then have "isDigit (d ! n)" using assms by (simp add: list_all_length)
  then show ?case using Suc by (simp add: not_digit_space take_Suc_conv_app_nth)
qed

lemma plain_groups_digits:
  "list_all isDigit t \<Longrightarrow> extractDigits (plain_groups_spec t) = t"
  using plain_groups_upto [of t "length t"] by (simp add: extractDigits_def plain_groups_spec_def)

lemma plain_groups_length_upto:
  "length (concat (map (\<lambda>i. (if 0 < i \<and> i mod 4 = 0 then [space] else []) @ [d ! i]) [0..<n])) =
   n + (n - 1) div 4"
proof (induction n)
  case 0
  show ?case by simp
next
  case (Suc n)
  have "n div 4 = (n - 1) div 4 + (if 0 < n \<and> n mod 4 = 0 then 1 else 0)" by presburger
  then show ?case using Suc by simp
qed

lemma plain_groups_length: "length (plain_groups_spec t) = length t + (length t - 1) div 4"
  by (simp add: plain_groups_spec_def plain_groups_length_upto)

lemma amex_groups_length: "length t = 15 \<Longrightarrow> length (amex_groups_spec t) = 17"
  by (simp add: amex_groups_spec_def)

lemma noAdjacentSep_append:
  "noAdjacentSep (xs @ ys) =
   (noAdjacentSep xs \<and> noAdjacentSep ys \<and>
    (xs = [] \<or> ys = [] \<or> isDigit (last xs) \<or> isDigit (hd ys)))"
proof (induction xs)
  case Nil
  show ?case by simp
next
  case (Cons a xs)
  note IH = Cons.IH
  show ?case
  proof (cases xs)
    case Nil
    then show ?thesis by (cases ys) auto
  next
    case (Cons b zs)
    then show ?thesis using IH by auto
  qed
qed

lemma wellSeparated_snoc:
  assumes "wellSeparated xs" and "isDigit c"
  shows "wellSeparated (xs @ [c])"
proof -
  have n: "noAdjacentSep (xs @ [c])"
    using assms by (simp add: noAdjacentSep_append wellSeparated_def)
  have h: "isDigit (hd (xs @ [c]))"
    using assms by (cases xs) (auto simp add: wellSeparated_def)
  have l: "list_all (\<lambda>c. isDigit c \<or> c = space) (xs @ [c])"
    using assms by (simp add: wellSeparated_def)
  show ?thesis
    unfolding wellSeparated_def using n h l assms(2) by simp
qed

lemma wellSeparated_snoc_sep:
  assumes "wellSeparated xs" and "xs \<noteq> []" and "isDigit c"
  shows "wellSeparated (xs @ [space, c])"
proof -
  have n: "noAdjacentSep (xs @ [space, c])"
    using assms by (simp add: noAdjacentSep_append wellSeparated_def)
  have h: "isDigit (hd (xs @ [space, c]))"
    using assms by (cases xs) (auto simp add: wellSeparated_def)
  have l: "list_all (\<lambda>c. isDigit c \<or> c = space) (xs @ [space, c])"
    using assms by (simp add: wellSeparated_def)
  show ?thesis
    unfolding wellSeparated_def using n h l assms(3) by simp
qed

lemma wellSeparated_digits: "list_all isDigit xs \<Longrightarrow> wellSeparated xs"
proof (induction xs rule: rev_induct)
  case Nil
  show ?case by (simp add: wellSeparated_def)
next
  case (snoc x xs)
  then show ?case by (simp add: wellSeparated_snoc)
qed

lemma wellSeparated_join:
  assumes "wellSeparated xs" and "xs \<noteq> []"
  shows "list_all isDigit ys \<Longrightarrow> ys \<noteq> [] \<Longrightarrow> wellSeparated (xs @ space # ys)"
proof (induction ys rule: rev_induct)
  case Nil
  then show ?case by simp
next
  case (snoc y ys)
  show ?case
  proof (cases "ys = []")
    case True
    then show ?thesis using wellSeparated_snoc_sep [OF assms, of y] snoc.prems by simp
  next
    case False
    then have "wellSeparated (xs @ space # ys)" using snoc by simp
    then have "wellSeparated ((xs @ space # ys) @ [y])"
      using snoc.prems by (intro wellSeparated_snoc) simp_all
    then show ?thesis by simp
  qed
qed

lemma amex_groups_wellSeparated:
  assumes "list_all isDigit t"
  shows "wellSeparated (amex_groups_spec t)"
proof (cases "4 < length t")
  case False
  then show ?thesis using assms by (simp add: amex_groups_spec_def wellSeparated_digits)
next
  case True
  have a: "wellSeparated (take 4 t)" "take 4 t \<noteq> []"
    using assms True by (auto simp add: wellSeparated_digits list_all_take_drop)
  have b: "list_all isDigit (take 6 (drop 4 t))" "take 6 (drop 4 t) \<noteq> []"
    using assms True by (auto simp add: list_all_take_drop)
  have ab: "wellSeparated (take 4 t @ space # take 6 (drop 4 t))"
    using a b by (rule wellSeparated_join)
  show ?thesis
  proof (cases "10 < length t")
    case False
    then show ?thesis using True ab by (simp add: amex_groups_spec_def)
  next
    case long: True
    have c: "list_all isDigit (take 5 (drop 10 t))" "take 5 (drop 10 t) \<noteq> []"
      using assms long by (auto simp add: list_all_take_drop)
    have "wellSeparated ((take 4 t @ space # take 6 (drop 4 t)) @ space # take 5 (drop 10 t))"
      using ab _ c by (rule wellSeparated_join) simp
    then show ?thesis using True long by (simp add: amex_groups_spec_def)
  qed
qed

lemma plain_groups_wellSeparated_upto:
  assumes "list_all isDigit d"
  shows "n \<le> length d \<Longrightarrow>
         wellSeparated (concat (map (\<lambda>i. (if 0 < i \<and> i mod 4 = 0 then [space] else []) @ [d ! i])
           [0..<n]))"
proof (induction n)
  case 0
  show ?case by (simp add: wellSeparated_def)
next
  case (Suc n)
  let ?out = "concat (map (\<lambda>i. (if 0 < i \<and> i mod 4 = 0 then [space] else []) @ [d ! i]) [0..<n])"
  have dg: "isDigit (d ! n)" using Suc.prems assms by (simp add: list_all_length)
  have w: "wellSeparated ?out" using Suc by simp
  have ne: "0 < n \<Longrightarrow> ?out \<noteq> []"
    using plain_groups_length_upto [of d n] by (metis add_gr_0 length_greater_0_conv)
  show ?case
  proof (cases "0 < n \<and> n mod 4 = 0")
    case True
    then show ?thesis using wellSeparated_snoc_sep [OF w _ dg] ne by simp
  next
    case False
    then show ?thesis using wellSeparated_snoc [OF w dg] by auto
  qed
qed

lemma plain_groups_wellSeparated: "list_all isDigit t \<Longrightarrow> wellSeparated (plain_groups_spec t)"
  using plain_groups_wellSeparated_upto [of t "length t"] by (simp add: plain_groups_spec_def)

lemma truncatedDigits_digits: "list_all isDigit (truncatedDigits raw)"
proof -
  have "list_all isDigit (extractDigits raw)" by (simp add: extractDigits_def list_all_iff)
  then show ?thesis unfolding truncatedDigits_def by (rule list_all_take_drop(1))
qed

lemma truncatedDigits_length:
  "amexPrefix (extractDigits raw) \<Longrightarrow> length (truncatedDigits raw) \<le> 15"
  "length (truncatedDigits raw) \<le> 16"
  by (auto simp add: truncatedDigits_def)

lemma card_format_digits: "extractDigits (card_format_spec raw) = truncatedDigits raw"
proof (cases "amexPrefix (extractDigits raw)")
  case True
  then have "card_format_spec raw = amex_groups_spec (truncatedDigits raw)"
    by (simp add: card_format_spec_def)
  then show ?thesis
    using amex_groups_digits [OF truncatedDigits_digits, of raw] truncatedDigits_length(1) [OF True]
    by simp
next
  case False
  then have "card_format_spec raw = plain_groups_spec (truncatedDigits raw)"
    by (simp add: card_format_spec_def)
  then show ?thesis
    using plain_groups_digits [OF truncatedDigits_digits, of raw] by simp
qed

lemma card_format_wellSeparated: "wellSeparated (card_format_spec raw)"
  using amex_groups_wellSeparated [OF truncatedDigits_digits, of raw]
    plain_groups_wellSeparated [OF truncatedDigits_digits, of raw]
  by (simp add: card_format_spec_def)

lemma card_format_length:
  "amexPrefix (extractDigits raw) \<Longrightarrow> 15 \<le> length (extractDigits raw) \<Longrightarrow>
   length (card_format_spec raw) = 17"
  "\<not> amexPrefix (extractDigits raw) \<Longrightarrow> 16 \<le> length (extractDigits raw) \<Longrightarrow>
   length (card_format_spec raw) = 19"
proof -
  assume a: "amexPrefix (extractDigits raw)" "15 \<le> length (extractDigits raw)"
  then have "length (truncatedDigits raw) = 15"
    by (simp add: truncatedDigits_def)
  then show "length (card_format_spec raw) = 17"
    using a by (simp add: card_format_spec_def amex_groups_length)
next
  assume a: "\<not> amexPrefix (extractDigits raw)" "16 \<le> length (extractDigits raw)"
  then have "length (truncatedDigits raw) = 16"
    by (simp add: truncatedDigits_def)
  then show "length (card_format_spec raw) = 19"
    using a by (simp add: card_format_spec_def plain_groups_length)
qed

text \<open>
  Claim C1. The value that \<open>formatCardNumber\<close> leaves in the field is the value of
  the specification: the digits of the input, cut to 15 when they start with 34 or
  37 and to 16 otherwise; for Amex in groups of 4, 6 and 5 with a single space after
  a group only when more digits remain; otherwise with a single space before the
  digits at positions 4, 8 and 12 (counting from 0), that is before every fourth
  digit but the first. Removing what is not a digit from that value gives back the cut
  digits; 15 Amex digits format to 17 characters and 16 other digits to 19; no
  separator stands at the start, at the end or next to another separator.
\<close>

theorem formatCardNumber_value:
  "val (formatCardNumber inp) = card_format_spec (val inp)
   \<and> extractDigits (val (formatCardNumber inp)) = truncatedDigits (val inp)
   \<and> (isProbablyAmex (extractDigits (val inp)) \<and> 15 \<le> length (extractDigits (val inp))
        \<longrightarrow> length (val (formatCardNumber inp)) = 17)
   \<and> (\<not> isProbablyAmex (extractDigits (val inp)) \<and> 16 \<le> length (extractDigits (val inp))
        \<longrightarrow> length (val (formatCardNumber inp)) = 19)
   \<and> wellSeparated (val (formatCardNumber inp))"
  by (simp add: formatCardNumber_val card_format_digits card_format_wellSeparated
      card_format_length isProbablyAmex_iff)

theorem formatCardNumber_value_witness:
  "val (formatCardNumber (field ''3400-0000-0000-009 12'')) = ''3400 000000 00009''
   \<and> extractDigits (val (formatCardNumber (field ''3400-0000-0000-009 12''))) = ''340000000000009''
   \<and> length (val (formatCardNumber (field ''3400-0000-0000-009 12''))) = 17
   \<and> val (formatCardNumber (field ''4111a1111b1111c1111d9'')) = ''4111 1111 1111 1111''
   \<and> length (val (formatCardNumber (field ''4111a1111b1111c1111d9''))) = 19
   \<and> val (formatCardNumber (field ''34000'')) = ''3400 0''
   \<and> wellSeparated (val (formatCardNumber (field ''34000'')))"
proof -
  have v: "\<And>s. val (field s) = s" by (simp add: field_def)
  have a1: "card_format_spec ''3400-0000-0000-009 12'' = ''3400 000000 00009''" by code_simp
  have a2: "truncatedDigits ''3400-0000-0000-009 12'' = ''340000000000009''" by code_simp
  have a3: "card_format_spec ''4111a1111b1111c1111d9'' = ''4111 1111 1111 1111''" by code_simp
  have a4: "card_format_spec ''34000'' = ''3400 0''" by code_simp
  note w1 = formatCardNumber_value [of "field ''3400-0000-0000-009 12''", unfolded v]
  note w2 = formatCardNumber_value [of "field ''4111a1111b1111c1111d9''", unfolded v]
  note w3 = formatCardNumber_value [of "field ''34000''", unfolded v]
  have t1: "val (formatCardNumber (field ''3400-0000-0000-009 12'')) = ''3400 000000 00009''"
    using w1 [THEN conjunct1] a1 by (rule trans)
  have t1b: "extractDigits (val (formatCardNumber (field ''3400-0000-0000-009 12''))) =
      ''340000000000009''"
    using w1 [THEN conjunct2, THEN conjunct1] a2 by (rule trans)
  have t2: "val (formatCardNumber (field ''4111a1111b1111c1111d9'')) = ''4111 1111 1111 1111''"
    using w2 [THEN conjunct1] a3 by (rule trans)
  have t3: "val (formatCardNumber (field ''34000'')) = ''3400 0''"
    using w3 [THEN conjunct1] a4 by (rule trans)
  have t3b: "wellSeparated (val (formatCardNumber (field ''34000'')))"
    using w3 by (elim conjE)
  have l1: "length (val (formatCardNumber (field ''3400-0000-0000-009 12''))) = 17"
    unfolding t1 by simp
  have l2: "length (val (formatCardNumber (field ''4111a1111b1111c1111d9''))) = 19"
    unfolding t2 by simp
  from t1 t1b l1 t2 l2 t3 t3b show ?thesis by (intro conjI)
qed

section \<open>The cursor\<close>

lemma digitCount_take_Suc:
  "pos < length f \<Longrightarrow>
   digitCount (take (Suc pos) f) = digitCount (take pos f) + (if isDigit (f ! pos) then 1 else 0)"
  by (simp add: digitCount_def extractDigits_def take_Suc_conv_app_nth)

lemma digitCount_take_le: "digitCount (take p f) \<le> digitCount f"
proof -
  have "digitCount f = digitCount (take p f) + digitCount (drop p f)"
    unfolding digitCount_def extractDigits_def
    by (metis append_take_drop_id filter_append length_append)
  then show ?thesis by simp
qed

lemma cursor_loop_inv:
  assumes "pos \<le> length f" and "c = digitCount (take pos f)" and "c \<le> n"
    and "\<forall>q<pos. digitCount (take q f) < n"
  shows "case cursor_loop f n pos c of
           (p, c') \<Rightarrow> p \<le> length f \<and> c' = digitCount (take p f) \<and> c' \<le> n \<and>
                      (\<forall>q<p. digitCount (take q f) < n) \<and> (p < length f \<longrightarrow> c' = n)"
  using assms
proof (induction "length f - pos" arbitrary: pos c)
  case 0
  then show ?case by (subst cursor_loop.simps) simp
next
  case (Suc k)
  show ?case
  proof (cases "pos < length f \<and> c < n")
    case False
    then show ?thesis using Suc.prems by (subst cursor_loop.simps) auto
  next
    case True
    define c1 where "c1 = (if testDigit (strAt f pos) then c + 1 else c)"
    have step: "cursor_loop f n pos c = cursor_loop f n (pos + 1) c1"
      using True by (subst cursor_loop.simps) (simp add: c1_def)
    have c1: "c1 = digitCount (take (Suc pos) f)"
      using True Suc.prems(2)
      by (simp add: c1_def digitCount_take_Suc strAt_def testDigit_def)
    have le: "c1 \<le> n" using True by (simp add: c1_def)
    have all: "\<forall>q<pos + 1. digitCount (take q f) < n"
      using Suc.prems(2,4) True by (auto simp add: less_Suc_eq)
    have "case cursor_loop f n (pos + 1) c1 of
           (p, c') \<Rightarrow> p \<le> length f \<and> c' = digitCount (take p f) \<and> c' \<le> n \<and>
                      (\<forall>q<p. digitCount (take q f) < n) \<and> (p < length f \<longrightarrow> c' = n)"
      using Suc.hyps(2) True c1 le all by (intro Suc.hyps(1)) simp_all
    then show ?thesis by (simp add: step)
  qed
qed

lemma remapCursor_spec: "cursor_spec f n (remapCursor f n)"
proof -
  obtain p c' where r: "cursor_loop f n 0 0 = (p, c')" by (cases "cursor_loop f n 0 0") auto
  have inv: "p \<le> length f \<and> c' = digitCount (take p f) \<and> c' \<le> n \<and>
             (\<forall>q<p. digitCount (take q f) < n) \<and> (p < length f \<longrightarrow> c' = n)"
  proof -
    have z: "0 = digitCount (take 0 f)" by (simp add: digitCount_def extractDigits_def)
    have "case cursor_loop f n 0 0 of
           (p, c') \<Rightarrow> p \<le> length f \<and> c' = digitCount (take p f) \<and> c' \<le> n \<and>
                      (\<forall>q<p. digitCount (take q f) < n) \<and> (p < length f \<longrightarrow> c' = n)"
      using z by (intro cursor_loop_inv) simp_all
    then show ?thesis unfolding r by auto
  qed
  show ?thesis
  proof (cases "n \<le> digitCount f")
    case True
    have "c' = n"
    proof (rule ccontr)
      assume "c' \<noteq> n"
      then have "p = length f" "c' < n" using inv by auto
      then show False using inv True by simp
    qed
    then have "remapCursor f n = p" using r by (simp add: remapCursor_def)
    moreover have "list_all (\<lambda>q. digitCount (take q f) \<noteq> n) [0..<p]"
      using inv by (auto simp add: list_all_iff)
    ultimately show ?thesis using inv True \<open>c' = n\<close> by (simp add: cursor_spec_def)
  next
    case False
    have "c' \<le> digitCount f" using inv digitCount_take_le [of p f] by simp
    then have "c' < n" using False by simp
    then have "remapCursor f n = length f" using r by (simp add: remapCursor_def)
    then show ?thesis using False by (simp add: cursor_spec_def)
  qed
qed

lemma formatCardNumber_cursor:
  "selectionStart (formatCardNumber inp) =
     Some (remapCursor (val (formatCardNumber inp)) (digitCount (take (cursorOf inp) (val inp))))"
  "selectionEnd (formatCardNumber inp) = selectionStart (formatCardNumber inp)"
  by (simp_all add: formatCardNumber_def Let_def setSelectionRange_def digitCount_def)

lemma formatExpiry_cursor:
  "selectionStart (formatExpiry inp) =
     Some (remapCursor (val (formatExpiry inp)) (digitCount (take (cursorOf inp) (val inp))))"
  "selectionEnd (formatExpiry inp) = selectionStart (formatExpiry inp)"
  by (simp_all add: formatExpiry_def Let_def setSelectionRange_def digitCount_def)

text \<open>
  Claim C2. For \<open>formatCardNumber\<close> and \<open>formatExpiry\<close>, a raw value and a cursor
  offset within it: with \<open>n\<close> the number of digits before the cursor in the raw
  value, the new cursor is the smallest offset of the formatted value that has \<open>n\<close>
  digits before it, and the end of the formatted value when that value has fewer than
  \<open>n\<close> digits. Formatting 12345 with the cursor at 5 gives 1234 5 with the cursor
  at 6.
\<close>

theorem cursor_remap:
  assumes "f = formatCardNumber \<or> f = formatExpiry"
    and "c \<le> length raw"
    and "inp = \<lparr>val = raw, selectionStart = Some c, selectionEnd = se\<rparr>"
  shows "cursor_spec (val (f inp)) (digitCount (take c raw)) (cursorOf (f inp))
       \<and> selectionStart (f inp) = Some (cursorOf (f inp))
       \<and> selectionEnd (f inp) = Some (cursorOf (f inp))
       \<and> formatCardNumber \<lparr>val = ''12345'', selectionStart = Some 5, selectionEnd = Some 5\<rparr> =
           \<lparr>val = ''1234 5'', selectionStart = Some 6, selectionEnd = Some 6\<rparr>"
proof -
  have i: "cursorOf inp = c" "val inp = raw" using assms(3) by (simp_all add: cursorOf_def)
  have s: "selectionStart (f inp) =
             Some (remapCursor (val (f inp)) (digitCount (take c raw)))
           \<and> selectionEnd (f inp) = selectionStart (f inp)"
    using assms(1) formatCardNumber_cursor [of inp] formatExpiry_cursor [of inp] i by auto
  then have p: "cursorOf (f inp) = remapCursor (val (f inp)) (digitCount (take c raw))"
    by (simp add: cursorOf_def)
  have a: "cursor_spec (val (f inp)) (digitCount (take c raw)) (cursorOf (f inp))"
    unfolding p by (rule remapCursor_spec)
  have x: "formatCardNumber \<lparr>val = ''12345'', selectionStart = Some 5, selectionEnd = Some 5\<rparr> =
           \<lparr>val = ''1234 5'', selectionStart = Some 6, selectionEnd = Some 6\<rparr>"
    by code_simp
  from a s p x show ?thesis by simp
qed

theorem cursor_remap_witness:
  "val (formatExpiry (field ''12/3'')) = ''12 / 3''
   \<and> digitCount (take 4 ''12/3'') = 3
   \<and> cursorOf (formatExpiry (field ''12/3'')) = 6
   \<and> cursor_spec ''12 / 3'' 3 6
   \<and> selectionStart (formatExpiry (field ''12/3'')) = Some 6"
proof -
  have o: "formatExpiry = formatCardNumber \<or> formatExpiry = formatExpiry" by simp
  have l: "4 \<le> length ''12/3''" by simp
  have i: "field ''12/3'' = \<lparr>val = ''12/3'', selectionStart = Some 4, selectionEnd = Some 4\<rparr>"
    by (simp add: field_def)
  have v: "val (formatExpiry (field ''12/3'')) = ''12 / 3''" by code_simp
  have n: "digitCount (take 4 ''12/3'') = 3" by code_simp
  have p: "cursorOf (formatExpiry (field ''12/3'')) = 6" by code_simp
  show ?thesis
    using cursor_remap [OF o l i] unfolding v n p by (simp only: v n p simp_thms)
qed

section \<open>Formatting twice\<close>

lemma formatCvv_val: "val (formatCvv inp) = take 4 (extractDigits (val inp))"
  by (simp add: formatCvv_def Let_def setSelectionRange_def)

lemma formatExpiry_val: "val (formatExpiry inp) = expiry_format_spec (val inp)"
proof -
  define d where "d = take 4 (extractDigits (val inp))"
  have "length d \<le> 4" by (simp add: d_def)
  then have t: "take 2 (drop 2 d) = drop 2 d" by simp
  have "val (formatExpiry inp) =
        (if length d > 0
         then (if length d \<le> 2 then d else take 2 d @ '' / '' @ take 2 (drop 2 d))
         else [])"
    unfolding formatExpiry_def Let_def setSelectionRange_def d_def [symmetric] by simp
  also have "\<dots> = (if d = [] then [] else if length d \<le> 2 then d
                    else take 2 d @ '' / '' @ drop 2 d)"
    unfolding t by auto
  finally show ?thesis
    unfolding expiry_format_spec_def Let_def d_def [symmetric] .
qed

lemma extractDigits_idem: "extractDigits (extractDigits s) = extractDigits s"
  by (simp add: extractDigits_def)

lemma extractDigits_take: "extractDigits (take n (extractDigits s)) = take n (extractDigits s)"
proof -
  have "list_all isDigit (take n (extractDigits s))"
    by (rule list_all_take_drop(1)) (simp add: extractDigits_def list_all_iff)
  then show ?thesis unfolding extractDigits_def by (rule filter_digits_id)
qed

lemma expiry_format_digits:
  "extractDigits (expiry_format_spec raw) = take 4 (extractDigits raw)"
proof -
  define d where "d = take 4 (extractDigits raw)"
  have dd: "list_all isDigit d"
    unfolding d_def by (rule list_all_take_drop(1)) (simp add: extractDigits_def list_all_iff)
  have sep: "filter isDigit '' / '' = []" by (simp add: isDigit_def)
  have "filter isDigit (take 2 d @ '' / '' @ drop 2 d) =
        filter isDigit (take 2 d) @ filter isDigit '' / '' @ filter isDigit (drop 2 d)"
    by (simp only: filter_append)
  also have "\<dots> = take 2 d @ drop 2 d"
    using dd by (simp only: sep filter_digits_id list_all_take_drop append_Nil)
  finally have long: "extractDigits (take 2 d @ '' / '' @ drop 2 d) = d"
    by (simp add: extractDigits_def)
  have short: "extractDigits d = d"
    using dd unfolding extractDigits_def by (rule filter_digits_id)
  show ?thesis
    unfolding expiry_format_spec_def Let_def d_def [symmetric]
    using long short by (simp add: extractDigits_def)
qed

lemma expiry_format_idem: "expiry_format_spec (expiry_format_spec raw) = expiry_format_spec raw"
proof -
  have "take 4 (extractDigits (expiry_format_spec raw)) = take 4 (extractDigits raw)"
    by (simp add: expiry_format_digits)
  then show ?thesis
    unfolding expiry_format_spec_def [of "expiry_format_spec raw"]
    unfolding expiry_format_spec_def [of raw, symmetric, unfolded Let_def]
    by (simp add: expiry_format_spec_def Let_def)
qed

lemma amexPrefix_take: "2 \<le> k \<Longrightarrow> amexPrefix (take k d) = amexPrefix d"
proof -
  assume k: "2 \<le> k"
  have a: "take 2 (take k d) = take 2 d" using k by (simp add: min_def)
  have b: "(2 \<le> length (take k d)) = (2 \<le> length d)" using k by auto
  show ?thesis unfolding amexPrefix_def a b ..
qed

lemma card_format_idem: "card_format_spec (card_format_spec raw) = card_format_spec raw"
proof -
  let ?d = "extractDigits raw"
  let ?t = "truncatedDigits raw"
  have e: "extractDigits (card_format_spec raw) = ?t" by (rule card_format_digits)
  have am: "amexPrefix ?t = amexPrefix ?d"
    unfolding truncatedDigits_def by (rule amexPrefix_take) simp
  have tt: "truncatedDigits (card_format_spec raw) = ?t"
  proof -
    have "truncatedDigits (card_format_spec raw) = take (if amexPrefix ?d then 15 else 16) ?t"
      unfolding truncatedDigits_def [of "card_format_spec raw"] e am ..
    also have "\<dots> = ?t" unfolding truncatedDigits_def [of raw] by simp
    finally show ?thesis .
  qed
  show ?thesis
    unfolding card_format_spec_def [of "card_format_spec raw"] e am tt
    unfolding card_format_spec_def [of raw] ..
qed

text \<open>
  Claim C10. Each formatter is idempotent on the value of the field: applied to an
  element that holds the value it produced, wherever the cursor is, it produces that
  value again.
\<close>

theorem formatters_idempotent:
  "val (formatCvv (j\<lparr>val := val (formatCvv i)\<rparr>)) = val (formatCvv i)
   \<and> val (formatExpiry (j\<lparr>val := val (formatExpiry i)\<rparr>)) = val (formatExpiry i)
   \<and> val (formatCardNumber (j\<lparr>val := val (formatCardNumber i)\<rparr>)) = val (formatCardNumber i)
   \<and> val (formatCvv (formatCvv i)) = val (formatCvv i)
   \<and> val (formatExpiry (formatExpiry i)) = val (formatExpiry i)
   \<and> val (formatCardNumber (formatCardNumber i)) = val (formatCardNumber i)"
proof -
  have cvv: "\<And>k. val k = val (formatCvv i) \<Longrightarrow> val (formatCvv k) = val (formatCvv i)"
    by (simp add: formatCvv_val extractDigits_take)
  have expiry: "\<And>k. val k = val (formatExpiry i) \<Longrightarrow> val (formatExpiry k) = val (formatExpiry i)"
    by (simp add: formatExpiry_val expiry_format_idem)
  have card: "\<And>k. val k = val (formatCardNumber i) \<Longrightarrow>
                  val (formatCardNumber k) = val (formatCardNumber i)"
    by (simp add: formatCardNumber_val card_format_idem)
  have a: "val (formatCvv (j\<lparr>val := val (formatCvv i)\<rparr>)) = val (formatCvv i)"
    by (rule cvv) simp
  have b: "val (formatExpiry (j\<lparr>val := val (formatExpiry i)\<rparr>)) = val (formatExpiry i)"
    by (rule expiry) simp
  have c: "val (formatCardNumber (j\<lparr>val := val (formatCardNumber i)\<rparr>)) =
           val (formatCardNumber i)"
    by (rule card) simp
  have a2: "val (formatCvv (formatCvv i)) = val (formatCvv i)" by (rule cvv) (rule refl)
  have b2: "val (formatExpiry (formatExpiry i)) = val (formatExpiry i)"
    by (rule expiry) (rule refl)
  have c2: "val (formatCardNumber (formatCardNumber i)) = val (formatCardNumber i)"
    by (rule card) (rule refl)
  from a b c a2 b2 c2 show ?thesis by (intro conjI)
qed

theorem formatters_idempotent_witness:
  "val (formatCvv (field ''12a345'')) = ''1234''
   \<and> val (formatCvv (formatCvv (field ''12a345''))) = ''1234''
   \<and> val (formatExpiry (field ''1234567'')) = ''12 / 34''
   \<and> val (formatExpiry (formatExpiry (field ''1234567''))) = ''12 / 34''
   \<and> val (formatCardNumber (field ''378282246310005999'')) = ''3782 822463 10005''
   \<and> val (formatCardNumber (formatCardNumber (field ''378282246310005999''))) =
       ''3782 822463 10005''"
proof -
  have a: "val (formatCvv (field ''12a345'')) = ''1234''" by code_simp
  have b: "val (formatExpiry (field ''1234567'')) = ''12 / 34''" by code_simp
  have c: "val (formatCardNumber (field ''378282246310005999'')) = ''3782 822463 10005''"
    by code_simp
  note w1 = formatters_idempotent [of "field ''12a345''" "field ''12a345''"]
  note w2 = formatters_idempotent [of "field ''1234567''" "field ''1234567''"]
  note w3 = formatters_idempotent [of "field ''378282246310005999''" "field ''378282246310005999''"]
  have a2: "val (formatCvv (formatCvv (field ''12a345''))) = ''1234''"
    using w1 a by (elim conjE) (rule trans)
  have b2: "val (formatExpiry (formatExpiry (field ''1234567''))) = ''12 / 34''"
    using w2 b by (elim conjE) (rule trans)
  have c2: "val (formatCardNumber (formatCardNumber (field ''378282246310005999''))) =
       ''3782 822463 10005''"
    using w3 c by (elim conjE) (rule trans)
  from a a2 b b2 c c2 show ?thesis by (intro conjI)
qed

end
